theory Spec2Isabelle
  imports Main "HOL-Library.Log_Nat"
begin

text \<open>
  A shallow embedding of the colour palette generator \<open>palette_generator.py\<close>: hex
  parsing and formatting, the colour arithmetic built on Python's \<open>colorsys\<close>, the WCAG
  contrast audit and the harmony generator.  Functions keep the names they have in the
  source; a function that can raise returns \<open>error + 'a\<close>.  Persistence, the export
  formats and the command line are not modelled.
\<close>

section \<open>Errors\<close>

text \<open>
  The exceptions the program can raise.  Three of them are Python's \<open>ValueError\<close>, told
  apart by where they are raised: \<open>InvalidHexColor\<close> is \<open>ValueError("Invalid hex color: ...")\<close>
  and \<open>UnknownHarmonyType\<close> is \<open>ValueError("Unknown harmony type: ...")\<close>, both raised by
  \<open>generate\<close>; \<open>InvalidLiteral\<close> is the \<open>ValueError\<close> that the builtin \<open>int(s, 16)\<close>
  raises on a string that is not a base-16 literal.  \<open>ZeroDivision\<close> is \<open>ZeroDivisionError\<close>.
\<close>

datatype error = InvalidHexColor | UnknownHarmonyType | InvalidLiteral | ZeroDivision

definition ebind :: "error + 'a \<Rightarrow> ('a \<Rightarrow> error + 'b) \<Rightarrow> error + 'b" where
  "ebind m f = (case m of Inl e \<Rightarrow> Inl e | Inr x \<Rightarrow> f x)"

text \<open>A list comprehension whose element expression may raise: the first exception ends it.\<close>

fun map_err :: "('a \<Rightarrow> error + 'b) \<Rightarrow> 'a list \<Rightarrow> error + 'b list" where
  "map_err f [] = Inr []"
| "map_err f (x # xs) =
     (case f x of Inl e \<Rightarrow> Inl e
      | Inr y \<Rightarrow> (case map_err f xs of Inl e \<Rightarrow> Inl e | Inr ys \<Rightarrow> Inr (y # ys)))"

section \<open>Strings and the builtin \<open>int(s, 16)\<close>\<close>

text \<open>
  A Python string is modelled as a \<^typ>\<open>string\<close> whose characters are the code points
  0 to 255.  \<open>int(s, 16)\<close> strips white space on both sides, reads an optional sign, an
  optional \<open>0x\<close> prefix (one underscore may follow it) and then hexadecimal digits, between
  which single underscores may stand; anything else raises \<open>ValueError\<close>.  Beyond code
  point 255 Python also strips the other Unicode white space and reads the other Unicode
  decimal digits as digits; those characters are outside the model, so a statement below
  about which characters \<open>int(s, 16)\<close> rejects speaks of strings of characters up to U+00FF.
\<close>

definition is_space :: "char \<Rightarrow> bool" where
  "is_space c = (c \<in> set [CHR 0x09, CHR 0x0A, CHR 0x0B, CHR 0x0C, CHR 0x0D, CHR '' '', CHR 0x85, CHR 0xA0])"

definition is_sign :: "char \<Rightarrow> bool" where
  "is_sign c = (c = CHR ''+'' \<or> c = CHR ''-'')"

definition hex_val :: "char \<Rightarrow> nat option" where
  "hex_val c =
     (if c \<in> set ''0123456789'' then Some (of_char c - 48)
      else if c \<in> set ''abcdef'' then Some (of_char c - 87)
      else if c \<in> set ''ABCDEF'' then Some (of_char c - 55)
      else None)"

definition is_hex :: "char \<Rightarrow> bool" where
  "is_hex c = (hex_val c \<noteq> None)"

definition the_hex :: "char \<Rightarrow> nat" where
  "the_hex c = (case hex_val c of None \<Rightarrow> 0 | Some d \<Rightarrow> d)"

definition digit_or_us :: "char \<Rightarrow> bool" where
  "digit_or_us c = (is_hex c \<or> c = CHR ''_'')"

fun double_us :: "string \<Rightarrow> bool" where
  "double_us (a # b # cs) = ((a = CHR ''_'' \<and> b = CHR ''_'') \<or> double_us (b # cs))"
| "double_us _ = False"

definition digits_value :: "string \<Rightarrow> nat" where
  "digits_value body =
     foldl (\<lambda>acc c. case hex_val c of None \<Rightarrow> acc | Some d \<Rightarrow> 16 * acc + d) 0 body"

definition scan_digits :: "string \<Rightarrow> (nat \<times> string) option" where
  "scan_digits s =
     (let body = takeWhile digit_or_us s; rest = dropWhile digit_or_us s
      in if body = [] \<or> hd body = CHR ''_'' \<or> last body = CHR ''_'' \<or> double_us body
         then None else Some (digits_value body, rest))"

definition skip_prefix :: "string \<Rightarrow> string" where
  "skip_prefix s =
     (if 2 \<le> length s \<and> s ! 0 = CHR ''0'' \<and> (s ! 1 = CHR ''x'' \<or> s ! 1 = CHR ''X'')
      then (let r = drop 2 s in if r \<noteq> [] \<and> hd r = CHR ''_'' then tl r else r)
      else s)"

definition py_int16 :: "string \<Rightarrow> error + int" where
  "py_int16 s =
     (let s1 = dropWhile is_space s;
          neg = (s1 \<noteq> [] \<and> hd s1 = CHR ''-'');
          s2 = (if s1 \<noteq> [] \<and> is_sign (hd s1) then tl s1 else s1)
      in case scan_digits (skip_prefix s2) of
           None \<Rightarrow> Inl InvalidLiteral
         | Some (v, rest) \<Rightarrow>
             if dropWhile is_space rest = [] then Inr (if neg then - int v else int v)
             else Inl InvalidLiteral)"

text \<open>\<open>s.lstrip("#")\<close> removes every leading \<open>#\<close>; \<open>s[i:j]\<close> never raises.\<close>

definition lstrip_hash :: "string \<Rightarrow> string" where
  "lstrip_hash s = dropWhile (\<lambda>c. c = CHR ''#'') s"

definition slice :: "nat \<Rightarrow> nat \<Rightarrow> 'a list \<Rightarrow> 'a list" where
  "slice i j xs = take (j - i) (drop i xs)"

text \<open>\<open>str(n)\<close> for a natural number, as the f-strings of \<open>generate\<close> use it.\<close>

definition decdigit :: "nat \<Rightarrow> char" where
  "decdigit n = ''0123456789'' ! n"

fun str_nat :: "nat \<Rightarrow> string" where
  "str_nat n = (if n < 10 then [decdigit n] else str_nat (n div 10) @ [decdigit (n mod 10)])"

text \<open>\<open>str.title()\<close> on ASCII text: a letter is upper-cased after a non-letter and
  lower-cased after a letter.\<close>

definition is_upper :: "char \<Rightarrow> bool" where
  "is_upper c = (let n = of_char c :: nat in 65 \<le> n \<and> n \<le> 90)"

definition is_lower :: "char \<Rightarrow> bool" where
  "is_lower c = (let n = of_char c :: nat in 97 \<le> n \<and> n \<le> 122)"

definition to_upper :: "char \<Rightarrow> char" where
  "to_upper c = (if is_lower c then char_of (of_char c - (32::nat)) else c)"

definition to_lower :: "char \<Rightarrow> char" where
  "to_lower c = (if is_upper c then char_of (of_char c + (32::nat)) else c)"

fun title_from :: "bool \<Rightarrow> string \<Rightarrow> string" where
  "title_from prev [] = []"
| "title_from prev (c # cs) =
     (if is_upper c \<or> is_lower c
      then (if prev then to_lower c else to_upper c) # title_from True cs
      else c # title_from False cs)"

definition title :: "string \<Rightarrow> string" where
  "title s = title_from False s"

section \<open>Hex triplets\<close>

definition expand3 :: "string \<Rightarrow> string" where
  "expand3 h = (if length h = 3 then [h ! 0, h ! 0, h ! 1, h ! 1, h ! 2, h ! 2] else h)"

definition hex_to_rgb :: "string \<Rightarrow> error + (int \<times> int \<times> int)" where
  "hex_to_rgb hex_color =
     (let h = expand3 (lstrip_hash hex_color)
      in ebind (py_int16 (slice 0 2 h)) (\<lambda>r.
         ebind (py_int16 (slice 2 4 h)) (\<lambda>g.
         ebind (py_int16 (slice 4 6 h)) (\<lambda>b. Inr (r, g, b)))))"

definition hexdigit :: "nat \<Rightarrow> char" where
  "hexdigit n = ''0123456789abcdef'' ! n"

fun to_hex :: "nat \<Rightarrow> string" where
  "to_hex n = (if n < 16 then [hexdigit n] else to_hex (n div 16) @ [hexdigit (n mod 16)])"

text \<open>The format \<open>{v:02x}\<close>, which \<open>rgb_to_hex\<close> applies to a clamped, hence natural, value.\<close>

definition fmt_02x :: "int \<Rightarrow> string" where
  "fmt_02x n = (let s = to_hex (nat n) in replicate (2 - length s) CHR ''0'' @ s)"

definition clamp255 :: "int \<Rightarrow> int" where
  "clamp255 v = max 0 (min 255 v)"

definition rgb_to_hex :: "int \<Rightarrow> int \<Rightarrow> int \<Rightarrow> string" where
  "rgb_to_hex r g b =
     CHR ''#'' # fmt_02x (clamp255 r) @ fmt_02x (clamp255 g) @ fmt_02x (clamp255 b)"

text \<open>Vocabulary for the statements about hex strings.\<close>

definition lower_hex :: "char \<Rightarrow> char" where
  "lower_hex c =
     (if c = CHR ''A'' then CHR ''a'' else if c = CHR ''B'' then CHR ''b''
      else if c = CHR ''C'' then CHR ''c'' else if c = CHR ''D'' then CHR ''d''
      else if c = CHR ''E'' then CHR ''e'' else if c = CHR ''F'' then CHR ''f'' else c)"

definition is_lower_hex :: "char \<Rightarrow> bool" where
  "is_lower_hex c = (c \<in> set ''0123456789abcdef'')"

definition valid_hex :: "string \<Rightarrow> bool" where
  "valid_hex s =
     (let h = lstrip_hash s in (length h = 3 \<or> length h = 6) \<and> list_all is_hex h)"

definition canonical_hex :: "string \<Rightarrow> bool" where
  "canonical_hex s =
     (length s = 7 \<and> hd s = CHR ''#'' \<and> list_all is_lower_hex (tl s))"

definition normal_form :: "string \<Rightarrow> string" where
  "normal_form s = CHR ''#'' # map lower_hex (expand3 (lstrip_hash s))"

definition parse_then_format :: "string \<Rightarrow> error + string" where
  "parse_then_format s = ebind (hex_to_rgb s) (\<lambda>(r, g, b). Inr (rgb_to_hex r g b))"

section \<open>Floating point\<close>

text \<open>
  A Python \<open>float\<close> is an IEEE 754 binary64 number.  A finite one is modelled by the
  rational number it denotes, and every arithmetic operation computes the exact result and
  rounds it to 53 significant bits, to nearest with ties to even (\<open>rnd\<close>).  The exponent
  range is not modelled (no overflow, no subnormal numbers) and neither are the infinities,
  NaN and the sign of zero: the colour arithmetic below stays far from all of them.
\<close>

type_synonym pyfloat = rat

definition rne :: "rat \<Rightarrow> int" where
  "rne x =
     (let f = \<lfloor>x\<rfloor>; d = x - of_int f
      in if d < 1 / 2 then f else if 1 / 2 < d then f + 1 else if even f then f else f + 1)"

definition ilog2 :: "rat \<Rightarrow> int" where
  "ilog2 x =
     (case quotient_of x of (p, q) \<Rightarrow>
        let d = bitlen p - bitlen q
        in if 2 powi d \<le> x then d else d - 1)"

definition rnd :: "rat \<Rightarrow> pyfloat" where
  "rnd x =
     (if x = 0 then 0
      else let e = ilog2 \<bar>x\<bar> - 52
           in sgn x * of_int (rne (\<bar>x\<bar> / 2 powi e)) * 2 powi e)"

text \<open>A decimal literal of the source denotes the nearest float.\<close>

definition flit :: "rat \<Rightarrow> pyfloat" where
  "flit q = rnd q"

definition float_of_int :: "int \<Rightarrow> pyfloat" where
  "float_of_int n = rnd (of_int n)"

definition fadd :: "pyfloat \<Rightarrow> pyfloat \<Rightarrow> pyfloat" where
  "fadd x y = rnd (x + y)"

definition fsub :: "pyfloat \<Rightarrow> pyfloat \<Rightarrow> pyfloat" where
  "fsub x y = rnd (x - y)"

definition fmul :: "pyfloat \<Rightarrow> pyfloat \<Rightarrow> pyfloat" where
  "fmul x y = rnd (x * y)"

text \<open>Division raises \<open>ZeroDivisionError\<close> on a zero divisor, for floats and for the true
  division of two \<open>int\<close>s alike.\<close>

definition fdiv :: "pyfloat \<Rightarrow> pyfloat \<Rightarrow> error + pyfloat" where
  "fdiv x y = (if y = 0 then Inl ZeroDivision else Inr (rnd (x / y)))"

definition int_truediv :: "int \<Rightarrow> int \<Rightarrow> error + pyfloat" where
  "int_truediv a b = (if b = 0 then Inl ZeroDivision else Inr (rnd (of_int a / of_int b)))"

text \<open>Division and remainder by a literal that is not zero cannot raise.\<close>

definition fdivc :: "pyfloat \<Rightarrow> rat \<Rightarrow> pyfloat" where
  "fdivc x c = rnd (x / c)"

definition trunc_zero :: "rat \<Rightarrow> int" where
  "trunc_zero x = (if x < 0 then \<lceil>x\<rceil> else \<lfloor>x\<rfloor>)"

text \<open>\<open>x % w\<close> for a positive literal \<open>w\<close>: the C \<open>fmod\<close>, which is exact, and one rounded
  addition of \<open>w\<close> when that remainder is negative.\<close>

definition fmodc :: "pyfloat \<Rightarrow> rat \<Rightarrow> pyfloat" where
  "fmodc x w =
     (let m = x - w * of_int (trunc_zero (x / w)) in if m < 0 then rnd (m + w) else m)"

text \<open>\<open>int(x)\<close> truncates towards zero; \<open>round(x, n)\<close> rounds the exact value of \<open>x\<close> to \<open>n\<close>
  decimals, ties to even, and returns the nearest float.\<close>

definition py_int :: "pyfloat \<Rightarrow> int" where
  "py_int x = trunc_zero x"

definition py_round :: "pyfloat \<Rightarrow> nat \<Rightarrow> pyfloat" where
  "py_round x n = rnd (of_int (rne (x * 10 ^ n)) / 10 ^ n)"

section \<open>The \<open>colorsys\<close> conversions\<close>

text \<open>
  \<open>rgb_to_hls\<close> and \<open>hls_to_rgb\<close> are imported from Python's standard module \<open>colorsys\<close>;
  they are transcribed from that module (CPython 3.11).
\<close>

definition ONE_THIRD :: pyfloat where "ONE_THIRD = fdivc 1 3"
definition ONE_SIXTH :: pyfloat where "ONE_SIXTH = fdivc 1 6"
definition TWO_THIRD :: pyfloat where "TWO_THIRD = fdivc 2 3"

definition rgb_to_hls ::
  "pyfloat \<Rightarrow> pyfloat \<Rightarrow> pyfloat \<Rightarrow> error + (pyfloat \<times> pyfloat \<times> pyfloat)" where
  "rgb_to_hls r g b =
     (let maxc = max r (max g b);
          minc = min r (min g b);
          sumc = fadd maxc minc;
          rangec = fsub maxc minc;
          l = fdivc sumc 2
      in if minc = maxc then Inr (0, l, 0)
         else
           ebind (if l \<le> 1 / 2 then fdiv rangec sumc
                  else fdiv rangec (fsub (fsub 2 maxc) minc)) (\<lambda>s.
           ebind (fdiv (fsub maxc r) rangec) (\<lambda>rc.
           ebind (fdiv (fsub maxc g) rangec) (\<lambda>gc.
           ebind (fdiv (fsub maxc b) rangec) (\<lambda>bc.
             let h = (if r = maxc then fsub bc gc
                      else if g = maxc then fsub (fadd 2 rc) bc
                      else fsub (fadd 4 gc) rc)
             in Inr (fmodc (fdivc h 6) 1, l, s))))))"

definition colorsys_v :: "pyfloat \<Rightarrow> pyfloat \<Rightarrow> pyfloat \<Rightarrow> pyfloat" where
  "colorsys_v m1 m2 hue0 =
     (let hue = fmodc hue0 1
      in if hue < ONE_SIXTH then fadd m1 (fmul (fmul (fsub m2 m1) hue) 6)
         else if hue < 1 / 2 then m2
         else if hue < TWO_THIRD then fadd m1 (fmul (fmul (fsub m2 m1) (fsub TWO_THIRD hue)) 6)
         else m1)"

definition hls_to_rgb :: "pyfloat \<Rightarrow> pyfloat \<Rightarrow> pyfloat \<Rightarrow> pyfloat \<times> pyfloat \<times> pyfloat" where
  "hls_to_rgb h l s =
     (if s = 0 then (l, l, l)
      else let m2 = (if l \<le> 1 / 2 then fmul l (fadd 1 s) else fsub (fadd l s) (fmul l s));
               m1 = fsub (fmul 2 l) m2
           in (colorsys_v m1 m2 (fadd h ONE_THIRD), colorsys_v m1 m2 h,
               colorsys_v m1 m2 (fsub h ONE_THIRD)))"

section \<open>Low-level colour math\<close>

text \<open>The triple \<open>rgb_to_hls(r / 255, g / 255, b / 255)\<close> that most functions start with.\<close>

definition channels_hls :: "int \<Rightarrow> int \<Rightarrow> int \<Rightarrow> error + (pyfloat \<times> pyfloat \<times> pyfloat)" where
  "channels_hls r g b =
     ebind (int_truediv r 255) (\<lambda>rf.
     ebind (int_truediv g 255) (\<lambda>gf.
     ebind (int_truediv b 255) (\<lambda>bf. rgb_to_hls rf gf bf)))"

definition hls_hex :: "pyfloat \<Rightarrow> pyfloat \<Rightarrow> pyfloat \<Rightarrow> string" where
  "hls_hex h l s =
     (case hls_to_rgb (fdivc h 360) l s of
        (r, g, b) \<Rightarrow> rgb_to_hex (py_int (fmul r 255)) (py_int (fmul g 255)) (py_int (fmul b 255)))"

definition rotate_hue :: "string \<Rightarrow> pyfloat \<Rightarrow> error + string" where
  "rotate_hue hex_color degrees =
     ebind (hex_to_rgb hex_color) (\<lambda>(r, g, b).
     ebind (channels_hls r g b) (\<lambda>(h, l, s).
       Inr (hls_hex (fmodc (fadd (fmul h 360) degrees) 360) l s)))"

definition adjust_lightness :: "string \<Rightarrow> pyfloat \<Rightarrow> error + string" where
  "adjust_lightness hex_color delta =
     ebind (hex_to_rgb hex_color) (\<lambda>(r, g, b).
     ebind (channels_hls r g b) (\<lambda>(h, l, s).
       Inr (hls_hex (fmul h 360) (max 0 (min 1 (fadd l delta))) s)))"

text \<open>One channel of \<open>blend_colors\<close>: the float \<open>c1 + (c2 - c1) * t\<close>, then \<open>int(_)\<close>.\<close>

definition lerp :: "int \<Rightarrow> int \<Rightarrow> pyfloat \<Rightarrow> pyfloat" where
  "lerp c1 c2 t = fadd (float_of_int c1) (fmul (float_of_int (c2 - c1)) t)"

definition blend_channel :: "int \<Rightarrow> int \<Rightarrow> pyfloat \<Rightarrow> int" where
  "blend_channel c1 c2 t = py_int (lerp c1 c2 t)"

definition blend_colors :: "string \<Rightarrow> string \<Rightarrow> pyfloat \<Rightarrow> error + string" where
  "blend_colors hex1 hex2 ratio =
     ebind (hex_to_rgb hex1) (\<lambda>(r1, g1, b1).
     ebind (hex_to_rgb hex2) (\<lambda>(r2, g2, b2).
       let t = max 0 (min 1 ratio)
       in Inr (rgb_to_hex (blend_channel r1 r2 t) (blend_channel g1 g2 t) (blend_channel b1 b2 t))))"




section \<open>Data model\<close>

text \<open>
  \<open>ColorSwatch\<close> is a dataclass whose \<open>__post_init__\<close> parses the hex string and derives
  hue, lightness and saturation, so constructing a swatch can raise.
\<close>

record ColorSwatch =
  sw_hex :: string
  sw_name :: string
  sw_role :: string
  sw_hue :: pyfloat
  sw_lightness :: pyfloat
  sw_saturation :: pyfloat

definition new_ColorSwatch :: "string \<Rightarrow> string \<Rightarrow> string \<Rightarrow> error + ColorSwatch" where
  "new_ColorSwatch hx nm rl =
     ebind (hex_to_rgb hx) (\<lambda>(r, g, b).
     ebind (channels_hls r g b) (\<lambda>(h, l, s).
       Inr \<lparr>sw_hex = hx, sw_name = nm, sw_role = rl,
            sw_hue = py_round (fmul h 360) 2,
            sw_lightness = py_round l 4,
            sw_saturation = py_round s 4\<rparr>))"

record Palette =
  p_id :: string
  p_name :: string
  p_base_color :: string
  p_harmony :: string
  p_colors :: "ColorSwatch list"
  p_tags :: "string list"
  p_created_at :: string
  p_description :: string

section \<open>WCAG accessibility\<close>

text \<open>
  The power \<open>x ** 2.4\<close> is computed by the C library; it is a parameter \<open>pw\<close> of the
  functions that reach it.
\<close>

text \<open>
  What is used of that power: for a positive base the result is not negative
  (\<open>pow_nonneg\<close>); moreover, for a positive exponent, a base of at most 1 gives at most 1,
  and the base 1 gives exactly 1 (\<open>pow_faithful\<close>), as a faithfully rounded power does.
\<close>

definition pow_nonneg :: "(pyfloat \<Rightarrow> pyfloat \<Rightarrow> pyfloat) \<Rightarrow> bool" where
  "pow_nonneg pw = (\<forall>x y. 0 < x \<longrightarrow> 0 \<le> pw x y)"

definition pow_faithful :: "(pyfloat \<Rightarrow> pyfloat \<Rightarrow> pyfloat) \<Rightarrow> bool" where
  "pow_faithful pw =
     (pow_nonneg pw \<and> (\<forall>x y. 0 < x \<and> x \<le> 1 \<and> 0 < y \<longrightarrow> pw x y \<le> 1) \<and> (\<forall>y. pw 1 y = 1))"

definition linearize :: "(pyfloat \<Rightarrow> pyfloat \<Rightarrow> pyfloat) \<Rightarrow> int \<Rightarrow> error + pyfloat" where
  "linearize pw c0 =
     ebind (int_truediv c0 255) (\<lambda>c.
       if c \<le> flit (3928 / 100000) then Inr (fdivc c (flit (1292 / 100)))
       else Inr (pw (fdivc (fadd c (flit (55 / 1000))) (flit (1055 / 1000))) (flit (24 / 10))))"

definition relative_luminance ::
  "(pyfloat \<Rightarrow> pyfloat \<Rightarrow> pyfloat) \<Rightarrow> string \<Rightarrow> error + pyfloat" where
  "relative_luminance pw hex_color =
     ebind (hex_to_rgb hex_color) (\<lambda>(r, g, b).
     ebind (linearize pw r) (\<lambda>lr.
     ebind (linearize pw g) (\<lambda>lg.
     ebind (linearize pw b) (\<lambda>lb.
       Inr (fadd (fadd (fmul (flit (2126 / 10000)) lr) (fmul (flit (7152 / 10000)) lg))
              (fmul (flit (722 / 10000)) lb))))))"

definition wcag_contrast_ratio ::
  "(pyfloat \<Rightarrow> pyfloat \<Rightarrow> pyfloat) \<Rightarrow> string \<Rightarrow> string \<Rightarrow> error + pyfloat" where
  "wcag_contrast_ratio pw color1 color2 =
     ebind (relative_luminance pw color1) (\<lambda>l1.
     ebind (relative_luminance pw color2) (\<lambda>l2.
       let bright = max l1 l2; dark = min l1 l2
       in ebind (fdiv (fadd bright (flit (5 / 100))) (fadd dark (flit (5 / 100)))) (\<lambda>q.
            Inr (py_round q 2))))"

definition wcag_grade :: "pyfloat \<Rightarrow> string" where
  "wcag_grade ratio =
     (if 7 \<le> ratio then ''AAA''
      else if 45 / 10 \<le> ratio then ''AA''
      else if 3 \<le> ratio then ''AA-Large''
      else ''Fail'')"

record Check =
  fg_name :: string
  fg_hex :: string
  bg_name :: string
  bg_hex :: string
  ck_ratio :: pyfloat
  ck_grade :: string
  aa_normal :: bool
  aa_large :: bool
  aaa_normal :: bool

record Summary =
  total :: nat
  pass_aa :: nat
  fail_aa :: int
  pass_rate :: pyfloat

record Report =
  palette_id :: string
  palette_name :: string
  checks :: "Check list"
  summary :: Summary

definition text_roles :: "string set" where
  "text_roles = {''text'', ''primary'', ''secondary'', ''accent''}"

definition bg_roles :: "string set" where
  "bg_roles = {''background'', ''surface'', ''muted''}"

definition foregrounds :: "Palette \<Rightarrow> ColorSwatch list" where
  "foregrounds palette =
     (let sel = filter (\<lambda>s. sw_role s \<in> text_roles) (p_colors palette)
      in if sel \<noteq> [] then sel else take 2 (p_colors palette))"

definition backgrounds :: "Palette \<Rightarrow> ColorSwatch list" where
  "backgrounds palette =
     (let sel = filter (\<lambda>s. sw_role s \<in> bg_roles) (p_colors palette)
      in if sel \<noteq> [] then sel else drop 2 (p_colors palette))"

definition make_check ::
  "(pyfloat \<Rightarrow> pyfloat \<Rightarrow> pyfloat) \<Rightarrow> ColorSwatch \<times> ColorSwatch \<Rightarrow> error + Check" where
  "make_check pw p =
     (case p of (fg, bg) \<Rightarrow>
        ebind (wcag_contrast_ratio pw (sw_hex fg) (sw_hex bg)) (\<lambda>r.
          Inr \<lparr>fg_name = sw_name fg, fg_hex = sw_hex fg,
               bg_name = sw_name bg, bg_hex = sw_hex bg,
               ck_ratio = r, ck_grade = wcag_grade r,
               aa_normal = (45 / 10 \<le> r), aa_large = (3 \<le> r), aaa_normal = (7 \<le> r)\<rparr>))"

definition a11y_check :: "(pyfloat \<Rightarrow> pyfloat \<Rightarrow> pyfloat) \<Rightarrow> Palette \<Rightarrow> error + Report" where
  "a11y_check pw palette =
     ebind (map_err (make_check pw) (List.product (foregrounds palette) (backgrounds palette)))
       (\<lambda>cs.
          let passed = length (filter aa_normal cs)
          in ebind (int_truediv (int passed) (max 1 (int (length cs)))) (\<lambda>q.
               Inr \<lparr>palette_id = p_id palette, palette_name = p_name palette, checks = cs,
                    summary = \<lparr>total = length cs, pass_aa = passed,
                                fail_aa = int (length cs) - int passed,
                                pass_rate = py_round (fmul q 100) 1\<rparr>\<rparr>))"

section \<open>Harmony generators\<close>

definition HARMONY_ANGLES :: "(string \<times> int list) list" where
  "HARMONY_ANGLES =
     [(''complementary'', [0, 180]),
      (''triadic'', [0, 120, 240]),
      (''analogous'', [0, 30, 60]),
      (''monochromatic'', []),
      (''split-complementary'', [0, 150, 210]),
      (''tetradic'', [0, 90, 180, 270])]"

definition ROLES :: "string list" where
  "ROLES = [''primary'', ''secondary'', ''accent'', ''quaternary'',
            ''background'', ''surface'', ''muted'', ''text'']"

definition MONO_STEPS :: "(pyfloat \<times> string) list" where
  "MONO_STEPS =
     [(flit (92 / 100), ''background''), (flit (75 / 100), ''surface''),
      (flit (55 / 100), ''primary''), (flit (35 / 100), ''secondary''),
      (flit (15 / 100), ''text'')]"

definition name_or_color :: "string \<Rightarrow> string" where
  "name_or_color name = (if name = [] then ''color'' else name)"

definition role_at :: "nat \<Rightarrow> string" where
  "role_at i = (if i < length ROLES then ROLES ! i else ''color-'' @ str_nat (i + 1))"

text \<open>The swatch name \<open>f"{name or 'color'}-{i+1}"\<close>.\<close>

definition swatch_name :: "string \<Rightarrow> nat \<Rightarrow> string" where
  "swatch_name name i = name_or_color name @ ''-'' @ str_nat (i + 1)"

text \<open>The two branches of \<open>generate\<close> that build the swatch list: the loop over the five
  fixed lightness steps, and the loop over the angles followed by the two appended variants.\<close>

definition monochromatic_swatches :: "string \<Rightarrow> string \<Rightarrow> pyfloat \<Rightarrow> error + ColorSwatch list" where
  "monochromatic_swatches full name l =
     map_err (\<lambda>(i, (lv, role)).
        ebind (adjust_lightness full (fsub lv l)) (\<lambda>c.
          new_ColorSwatch c (swatch_name name i) role))
       (enumerate 0 MONO_STEPS)"

definition rotated_swatches :: "string \<Rightarrow> string \<Rightarrow> int list \<Rightarrow> error + ColorSwatch list" where
  "rotated_swatches full name angles =
     map_err (\<lambda>(i, angle).
        ebind (rotate_hue full (float_of_int angle)) (\<lambda>c.
          new_ColorSwatch c (swatch_name name i) (role_at i)))
       (enumerate 0 angles)"

definition harmony_swatches :: "string \<Rightarrow> string \<Rightarrow> int list \<Rightarrow> error + ColorSwatch list" where
  "harmony_swatches full name angles =
     ebind (rotated_swatches full name angles) (\<lambda>rotated.
     ebind (adjust_lightness full (flit (38 / 100))) (\<lambda>c1.
     ebind (new_ColorSwatch c1 (name_or_color name @ ''-light'') ''background'') (\<lambda>light.
     ebind (adjust_lightness full (- flit (38 / 100))) (\<lambda>c2.
     ebind (new_ColorSwatch c2 (name_or_color name @ ''-dark'') ''text'') (\<lambda>dark.
       Inr (rotated @ [light, dark]))))))"

text \<open>
  \<open>generate\<close> draws a fresh identifier from \<open>uuid.uuid4()\<close> and reads the clock; both
  values are arguments of the model (\<open>uuid\<close>, \<open>now\<close>).
\<close>

definition generate ::
  "string \<Rightarrow> string \<Rightarrow> string \<Rightarrow> string \<Rightarrow> string \<Rightarrow> error + Palette" where
  "generate base_hex harmony_type name uuid now =
     (let h_str = expand3 (lstrip_hash base_hex)
      in if length h_str \<noteq> 6 then Inl InvalidHexColor
         else
           let full = CHR ''#'' # h_str
           in case map_of HARMONY_ANGLES harmony_type of
                None \<Rightarrow> Inl UnknownHarmonyType
              | Some angles \<Rightarrow>
                  ebind (hex_to_rgb full) (\<lambda>(r, g, b).
                  ebind (channels_hls r g b) (\<lambda>(h0, l, s).
                  ebind
                    (if harmony_type = ''monochromatic''
                     then monochromatic_swatches full name l
                     else harmony_swatches full name angles)
                    (\<lambda>swatches.
                       Inr \<lparr>p_id = uuid,
                            p_name = (if name = [] then title harmony_type @ '' Palette'' else name),
                            p_base_color = full,
                            p_harmony = harmony_type,
                            p_colors = swatches,
                            p_tags = [harmony_type],
                            p_created_at = now,
                            p_description = []\<rparr>))))"

section \<open>The base-16 literals of at most two characters\<close>

declare to_hex.simps [simp del] str_nat.simps [simp del]

lemma ebind_Inr_iff: "ebind m f = Inr y \<longleftrightarrow> (\<exists>x. m = Inr x \<and> f x = Inr y)"
  by (cases m) (simp_all add: ebind_def)

lemma ebind_Inr [simp]: "ebind (Inr x) f = f x"
  by (simp add: ebind_def)

lemma ebind_Inl [simp]: "ebind (Inl e) f = Inl e"
  by (simp add: ebind_def)

lemma is_hex_iff: "is_hex c \<longleftrightarrow> c \<in> set ''0123456789abcdefABCDEF''"
  by (auto simp: is_hex_def hex_val_def)

lemma is_hex_disj:
  "is_hex c \<Longrightarrow> c = CHR ''0'' \<or> c = CHR ''1'' \<or> c = CHR ''2'' \<or> c = CHR ''3'' \<or> c = CHR ''4''
    \<or> c = CHR ''5'' \<or> c = CHR ''6'' \<or> c = CHR ''7'' \<or> c = CHR ''8'' \<or> c = CHR ''9''
    \<or> c = CHR ''a'' \<or> c = CHR ''b'' \<or> c = CHR ''c'' \<or> c = CHR ''d'' \<or> c = CHR ''e''
    \<or> c = CHR ''f'' \<or> c = CHR ''A'' \<or> c = CHR ''B'' \<or> c = CHR ''C'' \<or> c = CHR ''D''
    \<or> c = CHR ''E'' \<or> c = CHR ''F''"
  unfolding is_hex_iff by simp

lemma is_hex_props:
  assumes "is_hex c"
  shows "\<not> is_space c" "\<not> is_sign c" "c \<noteq> CHR ''_''" "c \<noteq> CHR ''x''" "c \<noteq> CHR ''X''"
    "digit_or_us c" "hex_val c = Some (the_hex c)" "the_hex c < 16"
    "hexdigit (the_hex c) = lower_hex c" "c \<noteq> CHR ''+''" "c \<noteq> CHR ''-''" "c \<noteq> CHR ''#''"
proof -
  note d = is_hex_disj[OF assms]
  show "digit_or_us c" "hex_val c = Some (the_hex c)"
    using assms by (auto simp: digit_or_us_def is_hex_def the_hex_def)
  show "\<not> is_space c" using d by (elim disjE; simp add: is_space_def)
  show "\<not> is_sign c" using d by (elim disjE; simp add: is_sign_def)
  show "c \<noteq> CHR ''_''" using d by (elim disjE; simp)
  show "c \<noteq> CHR ''x''" using d by (elim disjE; simp)
  show "c \<noteq> CHR ''X''" using d by (elim disjE; simp)
  show "c \<noteq> CHR ''+''" using d by (elim disjE; simp)
  show "c \<noteq> CHR ''-''" using d by (elim disjE; simp)
  show "c \<noteq> CHR ''#''" using d by (elim disjE; simp)
  show "the_hex c < 16"
    using d by (elim disjE; simp add: the_hex_def hex_val_def)
  show "hexdigit (the_hex c) = lower_hex c"
    using d by (elim disjE; simp add: the_hex_def hex_val_def hexdigit_def lower_hex_def)
qed

lemma is_space_props:
  assumes "is_space c"
  shows "\<not> is_hex c" "\<not> is_sign c" "c \<noteq> CHR ''_''" "\<not> digit_or_us c" "c \<noteq> CHR ''+''"
    "c \<noteq> CHR ''-''" "c \<noteq> CHR ''0''" "c \<noteq> CHR ''x''" "c \<noteq> CHR ''X''"
  using assms
  by (auto simp: is_space_def is_sign_def digit_or_us_def is_hex_iff)

lemma is_sign_props:
  assumes "is_sign c"
  shows "\<not> is_hex c" "\<not> is_space c" "c \<noteq> CHR ''_''" "\<not> digit_or_us c"
  using assms
  by (auto simp: is_space_def is_sign_def digit_or_us_def is_hex_iff)

lemmas py_defs = py_int16_def skip_prefix_def scan_digits_def digits_value_def Let_def

lemma py_int16_error: "py_int16 s = Inl e \<Longrightarrow> e = InvalidLiteral"
  by (auto simp: py_int16_def Let_def split: option.splits if_splits)

lemma py_int16_pair:
  assumes "is_hex a" "is_hex b"
  shows "py_int16 [a, b] = Inr (int (16 * the_hex a + the_hex b))"
  using is_hex_props[OF assms(1)] is_hex_props[OF assms(2)]
  by (simp add: py_defs)

lemma fmt_02x_pair:
  assumes "x < 16" "y < 16"
  shows "fmt_02x (int (16 * x + y)) = [hexdigit x, hexdigit y]"
proof -
  have "to_hex (16 * x + y) = (if x = 0 then [hexdigit y] else [hexdigit x, hexdigit y])"
  proof (cases "x = 0")
    case True
    with assms show ?thesis by (simp add: to_hex.simps[of y])
  next
    case False
    with assms have "\<not> 16 * x + y < 16" "(16 * x + y) div 16 = x" "(16 * x + y) mod 16 = y"
      by auto
    with assms False show ?thesis
      by (simp add: to_hex.simps[of "16 * x + y"] to_hex.simps[of x])
  qed
  then show ?thesis
    unfolding fmt_02x_def nat_int by (simp add: hexdigit_def)
qed

lemma py_int16_nil: "py_int16 [] = Inl InvalidLiteral"
  by (simp add: py_defs)

lemma scan_digits_nil: "scan_digits [] = None"
  by (simp add: scan_digits_def)

lemma scan_digits_single:
  "scan_digits [a] = (if is_hex a then Some (the_hex a, []) else None)"
proof (cases "is_hex a")
  case True
  from is_hex_props[OF this] True show ?thesis by (simp add: py_defs)
next
  case False
  then show ?thesis by (auto simp: py_defs digit_or_us_def)
qed

lemma py_int16_single:
  "py_int16 [a] = (if is_hex a then Inr (int (the_hex a)) else Inl InvalidLiteral)"
proof -
  consider (h) "is_hex a" | (sp) "is_space a" | (sg) "is_sign a"
    | (o) "\<not> is_hex a" "\<not> is_space a" "\<not> is_sign a" by blast
  then show ?thesis
  proof cases
    case h
    from is_hex_props[OF this] h show ?thesis
      by (simp add: py_int16_def skip_prefix_def scan_digits_single)
  next
    case sp
    from is_space_props[OF this] sp show ?thesis
      by (simp add: py_int16_def skip_prefix_def scan_digits_nil)
  next
    case sg
    from is_sign_props[OF this] sg show ?thesis
      by (simp add: py_int16_def skip_prefix_def scan_digits_nil)
  next
    case o
    then show ?thesis
      by (simp add: py_int16_def skip_prefix_def scan_digits_single)
  qed
qed

lemma py_int16_skip_space: "is_space a \<Longrightarrow> py_int16 (a # s) = py_int16 s"
  by (simp add: py_int16_def)

lemma py_int16_two:
  assumes "py_int16 [a, b] = Inr v"
  shows "(is_hex a \<or> is_space a \<or> is_sign a) \<and> (is_hex b \<or> is_space b)"
proof -
  consider (h) "is_hex a" | (sp) "is_space a" | (sg) "is_sign a"
    | (o) "\<not> is_hex a" "\<not> is_space a" "\<not> is_sign a" by blast
  then show ?thesis
  proof cases
    case h
    show ?thesis
    proof (rule ccontr)
      assume "\<not> ?thesis"
      with h have nb: "\<not> is_hex b" "\<not> is_space b" by auto
      from is_hex_props[OF h] h nb have "py_int16 [a, b] = Inl InvalidLiteral"
        by (auto simp: py_defs digit_or_us_def)
      with assms show False by simp
    qed
  next
    case sp
    with assms have "py_int16 [b] = Inr v" by (simp add: py_int16_skip_space)
    then have "is_hex b" by (simp add: py_int16_single split: if_splits)
    with sp show ?thesis by simp
  next
    case sg
    show ?thesis
    proof (rule ccontr)
      assume "\<not> ?thesis"
      with sg have nb: "\<not> is_hex b" by auto
      from is_sign_props[OF sg] sg nb have "py_int16 [a, b] = Inl InvalidLiteral"
        by (simp add: py_int16_def skip_prefix_def scan_digits_single)
      with assms show False by simp
    qed
  next
    case o
    then have "a \<noteq> CHR ''0''" by (auto simp: is_hex_iff)
    with o have "py_int16 [a, b] = Inl InvalidLiteral"
      by (auto simp: py_defs digit_or_us_def)
    with assms show ?thesis by simp
  qed
qed

lemma py_int16_same:
  assumes "py_int16 [a, a] = Inr v"
  shows "is_hex a"
proof (rule ccontr)
  assume n: "\<not> is_hex a"
  with py_int16_two[OF assms] have sp: "is_space a" by simp
  then have "py_int16 [a, a] = py_int16 []" by (simp add: py_int16_skip_space)
  with assms show False by (simp add: py_int16_nil)
qed

lemma py_int16_short_chars:
  assumes "py_int16 s = Inr v" and "length s \<le> 2"
  shows "\<forall>c\<in>set s. is_hex c \<or> is_space c \<or> is_sign c"
proof -
  from assms(2) consider "s = []" | a where "s = [a]" | a b where "s = [a, b]"
    by (cases s; cases "tl s"; cases "tl (tl s)"; simp)
  then show ?thesis
  proof cases
    case 1
    then show ?thesis by simp
  next
    case 2
    with assms(1) show ?thesis by (simp add: py_int16_single split: if_splits)
  next
    case 3
    with py_int16_two[of a b v] assms(1) show ?thesis by auto
  qed
qed

section \<open>Parsing and formatting hex triplets\<close>

lemma hex_to_rgb_error: "hex_to_rgb s = Inl e \<Longrightarrow> e = InvalidLiteral"
  unfolding hex_to_rgb_def Let_def ebind_def
  by (auto split: sum.splits dest: py_int16_error)

lemma hex_to_rgb_Inr_iff:
  "hex_to_rgb s = Inr (r, g, b) \<longleftrightarrow>
     py_int16 (slice 0 2 (expand3 (lstrip_hash s))) = Inr r \<and>
     py_int16 (slice 2 4 (expand3 (lstrip_hash s))) = Inr g \<and>
     py_int16 (slice 4 6 (expand3 (lstrip_hash s))) = Inr b"
  unfolding hex_to_rgb_def Let_def by (auto simp: ebind_Inr_iff)

lemma take6_slices: "take 6 h = slice 0 2 h @ slice 2 4 h @ slice 4 6 h"
proof -
  have "take 6 h = take 2 h @ take 4 (drop 2 h)"
    using take_add[of 2 4 h] by simp
  also have "take 4 (drop 2 h) = take 2 (drop 2 h) @ take 2 (drop 4 h)"
    using take_add[of 2 2 "drop 2 h"] by simp
  finally show ?thesis by (simp add: slice_def)
qed

lemma hex_to_rgb_accepts:
  assumes "hex_to_rgb s = Inr (r, g, b)"
  shows "5 \<le> length (expand3 (lstrip_hash s))"
    and "\<forall>c\<in>set (take 6 (expand3 (lstrip_hash s))). is_hex c \<or> is_space c \<or> is_sign c"
proof -
  let ?h = "expand3 (lstrip_hash s)"
  from assms have p: "py_int16 (slice 0 2 ?h) = Inr r" "py_int16 (slice 2 4 ?h) = Inr g"
    "py_int16 (slice 4 6 ?h) = Inr b"
    by (simp_all add: hex_to_rgb_Inr_iff)
  from p(3) have "slice 4 6 ?h \<noteq> []" by (auto simp: py_int16_nil)
  then show "5 \<le> length ?h" by (simp add: slice_def)
  have len: "length (slice 0 2 ?h) \<le> 2" "length (slice 2 4 ?h) \<le> 2" "length (slice 4 6 ?h) \<le> 2"
    by (simp_all add: slice_def)
  from py_int16_short_chars[OF p(1) len(1)] py_int16_short_chars[OF p(2) len(2)]
    py_int16_short_chars[OF p(3) len(3)]
  show "\<forall>c\<in>set (take 6 ?h). is_hex c \<or> is_space c \<or> is_sign c"
    unfolding take6_slices by auto
qed

lemma length3_conv: "length h = 3 \<longleftrightarrow> (\<exists>a b c. h = [a, b, c])"
  by (auto simp: length_Suc_conv eval_nat_numeral)

lemma length6_conv: "length h = 6 \<longleftrightarrow> (\<exists>a b c d e f. h = [a, b, c, d, e, f])"
  by (auto simp: length_Suc_conv eval_nat_numeral)

lemma hex_to_rgb_three_accepts:
  assumes "hex_to_rgb s = Inr (r, g, b)" and "length (lstrip_hash s) = 3"
  shows "list_all is_hex (lstrip_hash s)"
proof -
  from assms(2) obtain x y z where h: "lstrip_hash s = [x, y, z]"
    by (auto simp: length3_conv)
  with assms(1) have "py_int16 [x, x] = Inr r" "py_int16 [y, y] = Inr g" "py_int16 [z, z] = Inr b"
    by (simp_all add: hex_to_rgb_Inr_iff expand3_def slice_def)
  then show ?thesis using h by (auto dest: py_int16_same)
qed

lemma hex_to_rgb_six:
  assumes "is_hex a" "is_hex b" "is_hex c" "is_hex d" "is_hex e" "is_hex f"
    and "expand3 (lstrip_hash s) = [a, b, c, d, e, f]"
  shows "hex_to_rgb s = Inr (int (16 * the_hex a + the_hex b), int (16 * the_hex c + the_hex d),
           int (16 * the_hex e + the_hex f))"
  using assms by (simp add: hex_to_rgb_Inr_iff slice_def py_int16_pair)

lemma clamp255_pair: "x < 16 \<Longrightarrow> y < 16 \<Longrightarrow> clamp255 (int (16 * x + y)) = int (16 * x + y)"
  by (simp add: clamp255_def)

lemma rgb_to_hex_six:
  assumes "is_hex a" "is_hex b" "is_hex c" "is_hex d" "is_hex e" "is_hex f"
  shows "rgb_to_hex (int (16 * the_hex a + the_hex b)) (int (16 * the_hex c + the_hex d))
           (int (16 * the_hex e + the_hex f))
         = CHR ''#'' # map lower_hex [a, b, c, d, e, f]"
  using assms
  by (simp add: rgb_to_hex_def clamp255_pair fmt_02x_pair is_hex_props(8) is_hex_props(9)
      del: of_nat_add of_nat_mult)

lemma valid_hex_expand:
  assumes "valid_hex s"
  shows "\<exists>a b c d e f. expand3 (lstrip_hash s) = [a, b, c, d, e, f] \<and> is_hex a \<and> is_hex b \<and>
           is_hex c \<and> is_hex d \<and> is_hex e \<and> is_hex f"
proof -
  from assms have l: "length (lstrip_hash s) = 3 \<or> length (lstrip_hash s) = 6"
    and h: "list_all is_hex (lstrip_hash s)"
    by (simp_all add: valid_hex_def Let_def)
  from l show ?thesis
  proof
    assume "length (lstrip_hash s) = 3"
    then obtain x y z where "lstrip_hash s = [x, y, z]" by (auto simp: length3_conv)
    with h show ?thesis by (simp add: expand3_def)
  next
    assume "length (lstrip_hash s) = 6"
    then obtain a b c d e f where "lstrip_hash s = [a, b, c, d, e, f]"
      by (auto simp: length6_conv)
    with h show ?thesis by (simp add: expand3_def)
  qed
qed

lemma valid_hex_parse:
  assumes "valid_hex s"
  shows "\<exists>r g b. hex_to_rgb s = Inr (r, g, b) \<and> 0 \<le> r \<and> r \<le> 255 \<and> 0 \<le> g \<and> g \<le> 255 \<and>
           0 \<le> b \<and> b \<le> 255 \<and> rgb_to_hex r g b = normal_form s"
proof -
  from valid_hex_expand[OF assms] obtain a b c d e f
    where e: "expand3 (lstrip_hash s) = [a, b, c, d, e, f]"
      and x: "is_hex a" "is_hex b" "is_hex c" "is_hex d" "is_hex e" "is_hex f"
    by blast
  have bound: "int (16 * the_hex u + the_hex v) \<le> 255" if "is_hex u" "is_hex v" for u v
  proof -
    from that have "the_hex u < 16" "the_hex v < 16" by (simp_all add: is_hex_props(8))
    then have "16 * the_hex u + the_hex v \<le> 255" by simp
    then show ?thesis by linarith
  qed
  show ?thesis
    using hex_to_rgb_six[OF x e] rgb_to_hex_six[OF x] e bound x
    by (simp add: normal_form_def del: of_nat_add of_nat_mult)
qed

lemma canonical_hex_normal_form:
  assumes "canonical_hex s"
  shows "valid_hex s" and "normal_form s = s"
proof -
  from assms have l: "length s = 7" and hd: "hd s = CHR ''#''" and lo: "list_all is_lower_hex (tl s)"
    by (simp_all add: canonical_hex_def)
  from l hd obtain h where s: "s = CHR ''#'' # h" and lh: "length h = 6"
    by (cases s) auto
  from lo s have lo': "list_all is_lower_hex h" by simp
  have fx: "is_hex c \<and> c \<noteq> CHR ''#'' \<and> lower_hex c = c" if "is_lower_hex c" for c
    using that by (auto simp: is_lower_hex_def is_hex_iff lower_hex_def)
  from lh obtain a b c d e f where h: "h = [a, b, c, d, e, f]" by (auto simp: length6_conv)
  with lo' fx have "a \<noteq> CHR ''#''" by simp
  with s h have strip: "lstrip_hash s = h" by (simp add: lstrip_hash_def)
  from lo' fx have allhex: "list_all is_hex h" and same: "map lower_hex h = h"
    by (simp_all add: list_all_iff map_idI)
  from strip lh allhex show "valid_hex s" by (simp add: valid_hex_def)
  from strip lh same s show "normal_form s = s" by (simp add: normal_form_def expand3_def)
qed

lemma bad_characters_rejected:
  assumes "5 \<le> length (lstrip_hash s)"
    and "\<exists>c\<in>set (take 6 (lstrip_hash s)). \<not> is_hex c \<and> \<not> is_space c \<and> \<not> is_sign c"
  shows "hex_to_rgb s = Inl InvalidLiteral"
proof (cases "hex_to_rgb s")
  case (Inl e)
  then show ?thesis by (simp add: hex_to_rgb_error)
next
  case (Inr t)
  obtain r g b where "t = (r, g, b)" by (cases t)
  with Inr have ok: "hex_to_rgb s = Inr (r, g, b)" by simp
  from assms(1) have "expand3 (lstrip_hash s) = lstrip_hash s" by (simp add: expand3_def)
  with hex_to_rgb_accepts(2)[OF ok] assms(2) show ?thesis by auto
qed

section \<open>Rounding to 53 bits\<close>

lemma bitlen_powi:
  assumes "0 < p"
  shows "(2::rat) powi (bitlen p - 1) \<le> of_int p" "of_int p < (2::rat) powi bitlen p"
proof -
  from assms have b: "1 \<le> bitlen p" by (auto simp: bitlen_alt_def)
  from bitlen_bounds[OF assms] have 1: "2 ^ nat (bitlen p - 1) \<le> p" and 2: "p < 2 ^ nat (bitlen p)"
    by simp_all
  from 1 have "(of_int (2 ^ nat (bitlen p - 1)) :: rat) \<le> of_int p" by (simp only: of_int_le_iff)
  with b show "(2::rat) powi (bitlen p - 1) \<le> of_int p" by (simp add: power_int_def)
  from 2 have "(of_int p :: rat) < of_int (2 ^ nat (bitlen p))" by (simp only: of_int_less_iff)
  with b show "of_int p < (2::rat) powi bitlen p" by (simp add: power_int_def)
qed

lemma ilog2_bounds:
  assumes "0 < x"
  shows "2 powi ilog2 x \<le> x" and "x < 2 powi (ilog2 x + 1)"
proof -
  obtain p q where pq: "quotient_of x = (p, q)" by (cases "quotient_of x")
  then have q: "0 < q" and x: "x = of_int p / of_int q"
    by (simp_all add: quotient_of_denom_pos quotient_of_div)
  with assms have p: "0 < p" by (simp add: zero_less_divide_iff)
  let ?d = "bitlen p - bitlen q"
  note bp = bitlen_powi[OF p] and bq = bitlen_powi[OF q]
  have qpos: "(0::rat) < of_int q" using q by simp
  have up: "x < 2 powi (?d + 1)"
  proof -
    have "x * of_int q = (of_int p :: rat)" using x qpos by simp
    also have "\<dots> < 2 powi bitlen p" by (rule bp(2))
    also have "\<dots> = 2 powi (?d + 1) * 2 powi (bitlen q - 1)"
      by (simp add: power_int_add[symmetric])
    also have "\<dots> \<le> 2 powi (?d + 1) * of_int q"
      using bq(1) by (intro mult_left_mono) simp_all
    finally show ?thesis using qpos by simp
  qed
  have lo: "2 powi (?d - 1) \<le> x"
  proof -
    have "(2::rat) powi (?d - 1) * of_int q \<le> 2 powi (?d - 1) * 2 powi bitlen q"
      using bq(2) by (intro mult_left_mono) simp_all
    also have "\<dots> = 2 powi (bitlen p - 1)" by (simp add: power_int_add[symmetric])
    also have "\<dots> \<le> of_int p" by (rule bp(1))
    also have "\<dots> = x * of_int q" using x qpos by simp
    finally show ?thesis using qpos by simp
  qed
  have il: "ilog2 x = (if 2 powi ?d \<le> x then ?d else ?d - 1)"
    by (simp add: ilog2_def pq Let_def)
  show "2 powi ilog2 x \<le> x" using lo by (simp add: il)
  show "x < 2 powi (ilog2 x + 1)" using up by (auto simp: il not_le)
qed


lemma pw2_add: "(2::rat) powi a * 2 powi b = 2 powi (a + b)"
  by (simp add: power_int_add)

lemma pw2_split: "a + b = c \<Longrightarrow> (2::rat) powi a * 2 powi b = 2 powi c"
  by (auto simp: power_int_add)

lemma powi_less_cancel:
  assumes "(2::rat) powi a < 2 powi b"
  shows "a < b"
proof (rule ccontr)
  assume "\<not> a < b"
  then have "b \<le> a" by simp
  then have "(2::rat) powi b \<le> 2 powi a" by (intro power_int_increasing) simp_all
  with assms show False by simp
qed

lemma ilog2_unique:
  assumes "0 < x" "2 powi k \<le> x" "x < 2 powi (k + 1)"
  shows "ilog2 x = k"
proof -
  from ilog2_bounds[OF assms(1)] assms(2,3)
  have "(2::rat) powi ilog2 x < 2 powi (k + 1)" "(2::rat) powi k < 2 powi (ilog2 x + 1)"
    by simp_all
  then have "ilog2 x < k + 1" "k < ilog2 x + 1" by (simp_all only: powi_less_cancel)
  then show ?thesis by simp
qed

lemma ilog2_mono:
  assumes "0 < x" "x \<le> y"
  shows "ilog2 x \<le> ilog2 y"
proof -
  from assms have y: "0 < y" by simp
  from ilog2_bounds(1)[OF assms(1)] ilog2_bounds(2)[OF y] assms(2)
  have "(2::rat) powi ilog2 x < 2 powi (ilog2 y + 1)" by simp
  then have "ilog2 x < ilog2 y + 1" by (rule powi_less_cancel)
  then show ?thesis by simp
qed

lemma rne_of_int [simp]: "rne (of_int n) = n"
  by (simp add: rne_def)

lemma rne_bounds: "\<lfloor>x\<rfloor> \<le> rne x" "rne x \<le> \<lfloor>x\<rfloor> + 1"
  by (simp_all add: rne_def Let_def)

lemma rne_mono:
  assumes "x \<le> y"
  shows "rne x \<le> rne y"
proof (cases "\<lfloor>x\<rfloor> = \<lfloor>y\<rfloor>")
  case True
  with assms show ?thesis by (auto simp: rne_def Let_def)
next
  case False
  with assms have "\<lfloor>x\<rfloor> < \<lfloor>y\<rfloor>" using floor_mono[OF assms] by simp
  with rne_bounds(2)[of x] rne_bounds(1)[of y] show ?thesis by simp
qed

lemma rne_ge: "of_int n \<le> x \<Longrightarrow> n \<le> rne x"
  using rne_mono[of "of_int n" x] by simp

lemma rne_le: "x \<le> of_int n \<Longrightarrow> rne x \<le> n"
  using rne_mono[of x "of_int n"] by simp

lemma rnd_zero [simp]: "rnd 0 = 0"
  by (simp add: rnd_def)

lemma rnd_minus: "rnd (- x) = - rnd x"
  by (simp add: rnd_def Let_def sgn_minus)

lemma rnd_pos_eq:
  assumes "0 < x"
  shows "rnd x = of_int (rne (x / 2 powi (ilog2 x - 52))) * 2 powi (ilog2 x - 52)"
  using assms by (simp add: rnd_def Let_def)

lemma scaled_bounds:
  assumes "0 < x"
  shows "2 ^ 52 \<le> x / 2 powi (ilog2 x - 52)" "x / 2 powi (ilog2 x - 52) < 2 ^ 53"
proof -
  have p: "(0::rat) < 2 powi (ilog2 x - 52)" by simp
  have "(2::rat) ^ 52 * 2 powi (ilog2 x - 52) = 2 powi 52 * 2 powi (ilog2 x - 52)" by simp
  also have "\<dots> = 2 powi ilog2 x" by (rule pw2_split) simp
  also have "\<dots> \<le> x" by (rule ilog2_bounds(1)[OF assms])
  finally show "2 ^ 52 \<le> x / 2 powi (ilog2 x - 52)" using p by (simp add: pos_le_divide_eq)
  have "x < 2 powi (ilog2 x + 1)" by (rule ilog2_bounds(2)[OF assms])
  also have "\<dots> = 2 powi 53 * 2 powi (ilog2 x - 52)" by (rule pw2_split[symmetric]) simp
  also have "\<dots> = 2 ^ 53 * 2 powi (ilog2 x - 52)" by simp
  finally show "x / 2 powi (ilog2 x - 52) < 2 ^ 53" using p by (simp add: pos_divide_less_eq)
qed

lemma mantissa_bounds:
  assumes "0 < x"
  shows "2 ^ 52 \<le> rne (x / 2 powi (ilog2 x - 52))" "rne (x / 2 powi (ilog2 x - 52)) \<le> 2 ^ 53"
proof -
  from scaled_bounds(1)[OF assms] have "of_int (2 ^ 52) \<le> x / 2 powi (ilog2 x - 52)" by simp
  then show "2 ^ 52 \<le> rne (x / 2 powi (ilog2 x - 52))" by (rule rne_ge)
  from scaled_bounds(2)[OF assms] have "x / 2 powi (ilog2 x - 52) \<le> of_int (2 ^ 53)" by simp
  then show "rne (x / 2 powi (ilog2 x - 52)) \<le> 2 ^ 53" by (rule rne_le)
qed

lemma rnd_pos:
  assumes "0 < x"
  shows "0 < rnd x"
proof -
  from mantissa_bounds(1)[OF assms] have "0 < rne (x / 2 powi (ilog2 x - 52))" by simp
  then show ?thesis by (simp add: rnd_pos_eq[OF assms])
qed

lemma rnd_mono_pos:
  assumes "0 < x" "x \<le> y"
  shows "rnd x \<le> rnd y"
proof -
  from assms have y: "0 < y" by simp
  let ?ex = "ilog2 x - 52" and ?ey = "ilog2 y - 52"
  have le: "?ex \<le> ?ey" using ilog2_mono[OF assms] by simp
  show ?thesis
  proof (cases "?ex = ?ey")
    case True
    have "x / 2 powi ?ex \<le> y / 2 powi ?ex"
      using assms(2) by (simp add: divide_right_mono)
    then have "rne (x / 2 powi ?ex) \<le> rne (y / 2 powi ?ex)" by (rule rne_mono)
    then have "(of_int (rne (x / 2 powi ?ex)) :: rat) * 2 powi ?ex
        \<le> of_int (rne (y / 2 powi ?ex)) * 2 powi ?ex"
      by (intro mult_right_mono) simp_all
    with True show ?thesis by (simp add: rnd_pos_eq[OF assms(1)] rnd_pos_eq[OF y])
  next
    case False
    with le have lt: "?ex + 1 \<le> ?ey" by simp
    have "rnd x = of_int (rne (x / 2 powi ?ex)) * 2 powi ?ex" by (rule rnd_pos_eq[OF assms(1)])
    also have "\<dots> \<le> of_int (2 ^ 53) * 2 powi ?ex"
      using mantissa_bounds(2)[OF assms(1)] by (intro mult_right_mono) (simp_all only: of_int_le_iff, simp)
    also have "\<dots> = 2 powi 53 * 2 powi ?ex" by simp
    also have "\<dots> = 2 powi (?ex + 53)" by (rule pw2_split) simp
    also have "\<dots> = 2 powi 52 * 2 powi (?ex + 1)" by (rule pw2_split[symmetric]) simp
    also have "\<dots> \<le> 2 powi 52 * 2 powi ?ey"
      using lt by (intro mult_left_mono power_int_increasing) simp_all
    also have "\<dots> = of_int (2 ^ 52) * 2 powi ?ey" by simp
    also have "\<dots> \<le> of_int (rne (y / 2 powi ?ey)) * 2 powi ?ey"
      using mantissa_bounds(1)[OF y] by (intro mult_right_mono) (simp_all only: of_int_le_iff, simp)
    also have "\<dots> = rnd y" by (rule rnd_pos_eq[OF y, symmetric])
    finally show ?thesis .
  qed
qed

lemma rnd_nonneg: "0 \<le> x \<Longrightarrow> 0 \<le> rnd x"
  using rnd_pos[of x] by (cases "x = 0") auto

lemma rnd_mono:
  assumes "x \<le> y"
  shows "rnd x \<le> rnd y"
proof -
  consider (a) "0 < x" | (b) "x \<le> 0" "0 \<le> y" | (c) "y < 0" using assms by linarith
  then show ?thesis
  proof cases
    case a
    then show ?thesis using assms by (rule rnd_mono_pos)
  next
    case b
    from b(1) have "rnd x \<le> 0" using rnd_nonneg[of "- x"] by (simp add: rnd_minus)
    also have "0 \<le> rnd y" using b(2) by (rule rnd_nonneg)
    finally show ?thesis .
  next
    case c
    with assms have "0 < - y" "- y \<le> - x" by simp_all
    then have "rnd (- y) \<le> rnd (- x)" by (rule rnd_mono_pos)
    then show ?thesis by (simp add: rnd_minus)
  qed
qed

lemma rnd_eq_0_iff [simp]: "rnd x = 0 \<longleftrightarrow> x = 0"
proof
  assume r: "rnd x = 0"
  show "x = 0"
  proof (rule ccontr)
    assume "x \<noteq> 0"
    then consider "0 < x" | "0 < - x" by linarith
    then show False
    proof cases
      case 1
      from rnd_pos[OF this] r show False by simp
    next
      case 2
      from rnd_pos[OF this] r show False by (simp add: rnd_minus)
    qed
  qed
qed simp

lemma rnd_representable_pos:
  assumes m: "0 < m" "m < 2 ^ 53"
  shows "rnd (of_int m * 2 powi k) = of_int m * 2 powi k"
proof -
  let ?x = "of_int m * 2 powi k :: rat"
  have x: "0 < ?x" using m(1) by simp
  let ?e = "ilog2 ?x - 52"
  have "?x < of_int (2 ^ 53) * 2 powi k"
    using m(2) by (intro mult_strict_right_mono) (simp_all only: of_int_less_iff, simp)
  also have "\<dots> = 2 powi 53 * 2 powi k" by simp
  also have "\<dots> = 2 powi (k + 53)" by (rule pw2_split) simp
  finally have "(2::rat) powi ilog2 ?x < 2 powi (k + 53)"
    using ilog2_bounds(1)[OF x] by simp
  then have "ilog2 ?x < k + 53" by (rule powi_less_cancel)
  then have ek: "0 \<le> k - ?e" by simp
  have "?x / 2 powi ?e = of_int m * 2 powi (k - ?e)"
    by (simp add: power_int_diff)
  also have "\<dots> = of_int (m * 2 ^ nat (k - ?e))"
    using ek by (simp add: power_int_def)
  finally have "rne (?x / 2 powi ?e) = m * 2 ^ nat (k - ?e)" by (simp only: rne_of_int)
  then have "rnd ?x = of_int (m * 2 ^ nat (k - ?e)) * 2 powi ?e"
    by (simp only: rnd_pos_eq[OF x])
  also have "\<dots> = of_int m * (2 powi (k - ?e) * 2 powi ?e)"
    using ek by (simp add: power_int_def)
  also have "2 powi (k - ?e) * 2 powi ?e = (2::rat) powi k"
    by (rule pw2_split) simp
  finally show ?thesis .
qed

lemma rnd_representable:
  assumes "\<bar>m\<bar> < 2 ^ 53"
  shows "rnd (of_int m * 2 powi k) = of_int m * 2 powi k"
proof -
  consider "m = 0" | "0 < m" | "0 < - m" by linarith
  then show ?thesis
  proof cases
    case 1
    then show ?thesis by simp
  next
    case 2
    with assms show ?thesis by (intro rnd_representable_pos) simp_all
  next
    case 3
    with assms have "rnd (of_int (- m) * 2 powi k) = of_int (- m) * 2 powi k"
      by (intro rnd_representable_pos) simp_all
    then show ?thesis using rnd_minus[of "of_int m * 2 powi k"] by simp
  qed
qed

lemma rnd_of_int:
  assumes "\<bar>n\<bar> < 2 ^ 53"
  shows "rnd (of_int n) = of_int n"
  using rnd_representable[OF assms, of 0] by simp

lemma rnd_one [simp]: "rnd 1 = 1"
  using rnd_of_int[of 1] by simp

lemma rnd_numeral_small: "rnd 2 = 2" "rnd 255 = 255" "rnd 360 = 360"
  using rnd_of_int[of 2] rnd_of_int[of 255] rnd_of_int[of 360] by simp_all

lemma rnd_unit_interval:
  assumes "0 \<le> x" "x \<le> 1"
  shows "0 \<le> rnd x" "rnd x \<le> 1"
  using rnd_mono[OF assms(1)] rnd_mono[OF assms(2)] by simp_all

lemma rne_error: "\<bar>of_int (rne x) - x\<bar> \<le> 1 / 2"
proof -
  have f: "of_int \<lfloor>x\<rfloor> \<le> x" "x < of_int \<lfloor>x\<rfloor> + 1" by linarith+
  consider "x - of_int \<lfloor>x\<rfloor> < 1 / 2" | "1 / 2 < x - of_int \<lfloor>x\<rfloor>"
    | "x - of_int \<lfloor>x\<rfloor> = 1 / 2" by linarith
  then show ?thesis
  proof cases
    case 1
    then have "rne x = \<lfloor>x\<rfloor>" by (simp add: rne_def Let_def)
    with 1 f show ?thesis by simp
  next
    case 2
    then have "rne x = \<lfloor>x\<rfloor> + 1" by (simp add: rne_def Let_def)
    with 2 f show ?thesis by simp
  next
    case 3
    then have "rne x = \<lfloor>x\<rfloor> \<or> rne x = \<lfloor>x\<rfloor> + 1" by (simp add: rne_def Let_def)
    with 3 f show ?thesis by auto
  qed
qed

lemma rnd_error_pos:
  assumes "0 < x"
  shows "\<bar>rnd x - x\<bar> \<le> x / 2 ^ 53"
proof -
  let ?e = "ilog2 x - 52"
  let ?p = "(2::rat) powi ?e"
  have p: "0 < ?p" by simp
  have "rnd x - x = (of_int (rne (x / ?p)) - x / ?p) * ?p"
    using p by (simp add: rnd_pos_eq[OF assms] algebra_simps)
  then have "\<bar>rnd x - x\<bar> = \<bar>of_int (rne (x / ?p)) - x / ?p\<bar> * ?p"
    using p by (simp add: abs_mult)
  also have "\<dots> \<le> (1 / 2) * ?p"
    using p by (intro mult_right_mono rne_error) simp
  also have "2 ^ 53 * ((1 / 2) * ?p) = 2 powi 52 * ?p" by simp
  then have "(1 / 2) * ?p = 2 powi 52 * ?p / 2 ^ 53" by (simp add: field_simps)
  also have "2 powi 52 * ?p = 2 powi ilog2 x" by (rule pw2_split) simp
  also have "\<dots> / 2 ^ 53 \<le> x / 2 ^ 53"
    using ilog2_bounds(1)[OF assms] by (simp add: divide_right_mono)
  finally show ?thesis .
qed

lemma rnd_error: "\<bar>rnd x - x\<bar> \<le> \<bar>x\<bar> / 2 ^ 53"
proof -
  consider "x = 0" | "0 < x" | "x < 0" by linarith
  then show ?thesis
  proof cases
    case 1 then show ?thesis by simp
  next
    case 2 with rnd_error_pos[OF 2] show ?thesis by simp
  next
    case 3
    then have "0 < - x" by simp
    from rnd_error_pos[OF this] have "\<bar>- rnd x + x\<bar> \<le> - x / 2 ^ 53" by (simp add: rnd_minus)
    moreover have "\<bar>- rnd x + x\<bar> = \<bar>rnd x - x\<bar>" by (simp add: abs_minus_commute)
    ultimately show ?thesis using 3 by simp
  qed
qed
section \<open>Sequencing and formatting lemmas\<close>

lemma map_err_Inr_iff: "map_err f xs = Inr ys \<longleftrightarrow> map f xs = map Inr ys"
proof (induction xs arbitrary: ys)
  case Nil
  then show ?case by auto
next
  case (Cons x xs)
  show ?case
  proof (cases "f x")
    case (Inl e)
    then show ?thesis by (cases ys) auto
  next
    case (Inr y)
    show ?thesis
    proof (cases "map_err f xs")
      case (Inl e)
      have "map f xs \<noteq> map Inr zs" for zs
        using Cons.IH[of zs] Inl by auto
      with Inl Inr show ?thesis by (cases ys) auto
    next
      case r: (Inr zs)
      have "map f xs = map Inr zs" using Cons.IH[of zs] r by simp
      with r Inr show ?thesis by (cases ys) (auto simp: inj_map_eq_map)
    qed
  qed
qed

lemma map_err_all2:
  assumes "\<forall>x\<in>set xs. \<exists>y. f x = Inr y \<and> P x y"
  shows "\<exists>ys. map_err f xs = Inr ys \<and> list_all2 P xs ys"
  using assms
proof (induction xs)
  case Nil
  then show ?case by simp
next
  case (Cons x xs)
  then obtain y ys where "f x = Inr y" "P x y" "map_err f xs = Inr ys" "list_all2 P xs ys"
    by auto
  then show ?case by simp
qed

lemma map_err_sound:
  assumes "map_err f xs = Inr ys"
  shows "list_all2 (\<lambda>x y. f x = Inr y) xs ys"
  using assms
proof (induction xs arbitrary: ys)
  case Nil
  then show ?case by simp
next
  case (Cons x xs)
  then show ?case by (auto split: sum.splits)
qed

lemma map_err_first_error:
  assumes "f x = Inl e"
  shows "map_err f (x # xs) = Inl e"
  using assms by simp

lemma hexdigit_lower: "x < 16 \<Longrightarrow> is_lower_hex (hexdigit x)"
proof -
  have "list_all (\<lambda>x. is_lower_hex (hexdigit x)) [0..<16]"
    by (simp add: upt_rec is_lower_hex_def hexdigit_def)
  then show "x < 16 \<Longrightarrow> is_lower_hex (hexdigit x)" by (simp add: list_all_iff)
qed

lemma fmt_02x_clamp:
  "\<exists>x y. x < 16 \<and> y < 16 \<and> fmt_02x (clamp255 v) = [hexdigit x, hexdigit y]"
proof -
  have "0 \<le> clamp255 v" "clamp255 v \<le> 255" by (simp_all add: clamp255_def)
  then obtain n where n: "clamp255 v = int n" "n \<le> 255"
    by (metis nat_le_iff nat_0_le of_nat_numeral)
  have "n = 16 * (n div 16) + n mod 16" by simp
  moreover have "n div 16 < 16" "n mod 16 < 16" using n(2) by simp_all
  ultimately show ?thesis
    using fmt_02x_pair[of "n div 16" "n mod 16"] n(1) by (metis)
qed

lemma rgb_to_hex_canonical: "canonical_hex (rgb_to_hex r g b)"
proof -
  from fmt_02x_clamp[of r] obtain x1 y1 where
    1: "x1 < 16" "y1 < 16" "fmt_02x (clamp255 r) = [hexdigit x1, hexdigit y1]" by blast
  from fmt_02x_clamp[of g] obtain x2 y2 where
    2: "x2 < 16" "y2 < 16" "fmt_02x (clamp255 g) = [hexdigit x2, hexdigit y2]" by blast
  from fmt_02x_clamp[of b] obtain x3 y3 where
    3: "x3 < 16" "y3 < 16" "fmt_02x (clamp255 b) = [hexdigit x3, hexdigit y3]" by blast
  from 1 2 3 show ?thesis
    by (simp add: canonical_hex_def rgb_to_hex_def hexdigit_lower)
qed

lemma hls_hex_canonical: "canonical_hex (hls_hex h l s)"
  by (simp add: hls_hex_def rgb_to_hex_canonical split: prod.splits)

section \<open>The conversions succeed on channels between 0 and 255\<close>

lemma int_truediv_255:
  "int_truediv c 255 = Inr (rnd (of_int c / 255))"
  by (simp add: int_truediv_def)

lemma unit_channel:
  assumes "0 \<le> c" "c \<le> 255"
  shows "0 \<le> rnd (of_int c / 255)" "rnd (of_int c / 255) \<le> 1"
proof -
  from assms have "(0::rat) \<le> of_int c / 255" "(of_int c :: rat) / 255 \<le> 1" by simp_all
  then show "0 \<le> rnd (of_int c / 255)" "rnd (of_int c / 255) \<le> 1"
    by (rule rnd_unit_interval)+
qed

lemma rgb_to_hls_total:
  assumes "0 \<le> r" "r \<le> 1" "0 \<le> g" "g \<le> 1" "0 \<le> b" "b \<le> 1"
  shows "\<exists>h l s. rgb_to_hls r g b = Inr (h, l, s)"
proof -
  define maxc where "maxc = max r (max g b)"
  define minc where "minc = min r (min g b)"
  have mn: "0 \<le> minc" and mx: "maxc \<le> 1" and le: "minc \<le> maxc"
    using assms by (simp_all add: maxc_def minc_def)
  show ?thesis
  proof (cases "minc = maxc")
    case True
    then show ?thesis
      unfolding rgb_to_hls_def Let_def maxc_def[symmetric] minc_def[symmetric] by simp
  next
    case False
    with le have lt: "minc < maxc" by simp
    have "maxc + minc \<noteq> 0" using lt mn by linarith
    then have sumc: "fadd maxc minc \<noteq> 0"
      by (simp only: fadd_def rnd_eq_0_iff not_False_eq_True)
    have "maxc - minc \<noteq> 0" using lt by linarith
    then have rangec: "fsub maxc minc \<noteq> 0"
      by (simp only: fsub_def rnd_eq_0_iff not_False_eq_True)
    have "1 \<le> 2 - maxc" using mx by linarith
    then have "1 \<le> rnd (2 - maxc)"
      using rnd_mono[of 1 "2 - maxc"] by (simp only: rnd_one)
    then have "rnd (2 - maxc) - minc \<noteq> 0" using lt mx by linarith
    then have other: "fsub (fsub 2 maxc) minc \<noteq> 0"
      by (simp only: fsub_def rnd_eq_0_iff not_False_eq_True)
    from False sumc rangec other show ?thesis
      unfolding rgb_to_hls_def Let_def maxc_def[symmetric] minc_def[symmetric]
      by (simp add: fdiv_def)
  qed
qed

lemma channels_hls_total:
  assumes "0 \<le> r" "r \<le> 255" "0 \<le> g" "g \<le> 255" "0 \<le> b" "b \<le> 255"
  shows "\<exists>h l s. channels_hls r g b = Inr (h, l, s)"
  using rgb_to_hls_total[OF unit_channel[OF assms(1,2)] unit_channel[OF assms(3,4)]
      unit_channel[OF assms(5,6)]]
  by (simp add: channels_hls_def int_truediv_255)

lemma valid_hex_hls:
  assumes "valid_hex c"
  shows "\<exists>r g b h l s. hex_to_rgb c = Inr (r, g, b) \<and> channels_hls r g b = Inr (h, l, s)"
proof -
  from valid_hex_parse[OF assms] obtain r g b where
    p: "hex_to_rgb c = Inr (r, g, b)" "0 \<le> r" "r \<le> 255" "0 \<le> g" "g \<le> 255" "0 \<le> b" "b \<le> 255"
    by blast
  from channels_hls_total[OF p(2-7)] p(1) show ?thesis by blast
qed

lemma rotate_hue_total:
  assumes "valid_hex c"
  shows "\<exists>x. rotate_hue c d = Inr x \<and> canonical_hex x"
proof -
  from valid_hex_hls[OF assms] obtain r g b h l s where
    "hex_to_rgb c = Inr (r, g, b)" "channels_hls r g b = Inr (h, l, s)" by blast
  then show ?thesis by (simp add: rotate_hue_def hls_hex_canonical)
qed

lemma adjust_lightness_eq:
  assumes "hex_to_rgb c = Inr (r, g, b)" "channels_hls r g b = Inr (h, l, s)"
  shows "adjust_lightness c d = Inr (hls_hex (fmul h 360) (max 0 (min 1 (fadd l d))) s)"
  using assms by (simp add: adjust_lightness_def)

lemma adjust_lightness_total:
  assumes "valid_hex c"
  shows "\<exists>x. adjust_lightness c d = Inr x \<and> canonical_hex x"
proof -
  from valid_hex_hls[OF assms] obtain r g b h l s where
    "hex_to_rgb c = Inr (r, g, b)" "channels_hls r g b = Inr (h, l, s)" by blast
  then show ?thesis by (simp add: adjust_lightness_def hls_hex_canonical)
qed

lemma new_ColorSwatch_total:
  assumes "valid_hex c"
  shows "\<exists>sw. new_ColorSwatch c n rl = Inr sw \<and> sw_hex sw = c \<and> sw_name sw = n \<and> sw_role sw = rl"
proof -
  from valid_hex_hls[OF assms] obtain r g b h l s where
    "hex_to_rgb c = Inr (r, g, b)" "channels_hls r g b = Inr (h, l, s)" by blast
  then show ?thesis by (simp add: new_ColorSwatch_def)
qed

lemma new_ColorSwatch_fields:
  assumes "new_ColorSwatch c n rl = Inr sw"
  shows "sw_hex sw = c" "sw_name sw = n" "sw_role sw = rl"
  using assms by (auto simp: new_ColorSwatch_def ebind_Inr_iff)

lemma rotate_hue_canonical: "rotate_hue c d = Inr x \<Longrightarrow> canonical_hex x"
  by (auto simp: rotate_hue_def ebind_Inr_iff hls_hex_canonical)

lemma adjust_lightness_canonical: "adjust_lightness c d = Inr x \<Longrightarrow> canonical_hex x"
  by (auto simp: adjust_lightness_def ebind_Inr_iff hls_hex_canonical)

section \<open>The normalised base colour\<close>

lemma lstrip_hash_fixed: "s = [] \<or> hd s \<noteq> CHR ''#'' \<Longrightarrow> lstrip_hash s = s"
  by (cases s) (auto simp: lstrip_hash_def)

lemma lstrip_hash_head: "lstrip_hash s = [] \<or> hd (lstrip_hash s) \<noteq> CHR ''#''"
  using hd_dropWhile[of "\<lambda>c. c = CHR ''#''" s] by (auto simp: lstrip_hash_def)

lemma expand3_head: "h = [] \<or> hd h \<noteq> c \<Longrightarrow> expand3 h = [] \<or> hd (expand3 h) \<noteq> c"
  by (cases h) (auto simp: expand3_def)

lemma full_hex_strip:
  assumes "length (expand3 (lstrip_hash base)) = 6"
  shows "expand3 (lstrip_hash (CHR ''#'' # expand3 (lstrip_hash base))) = expand3 (lstrip_hash base)"
proof -
  let ?h = "expand3 (lstrip_hash base)"
  have "lstrip_hash (CHR ''#'' # ?h) = lstrip_hash ?h" by (simp add: lstrip_hash_def)
  also have "\<dots> = ?h"
    using expand3_head[OF lstrip_hash_head[of base]] by (rule lstrip_hash_fixed)
  finally show ?thesis using assms by (simp add: expand3_def)
qed

lemma full_hex_parse:
  assumes "length (expand3 (lstrip_hash base)) = 6"
  shows "hex_to_rgb (CHR ''#'' # expand3 (lstrip_hash base)) = hex_to_rgb base"
  by (simp add: hex_to_rgb_def full_hex_strip[OF assms])

lemma valid_hex_length: "valid_hex base \<Longrightarrow> length (expand3 (lstrip_hash base)) = 6"
  by (auto simp: valid_hex_def Let_def expand3_def)

lemma full_hex_valid:
  assumes "valid_hex base"
  shows "valid_hex (CHR ''#'' # expand3 (lstrip_hash base))"
proof -
  let ?h = "expand3 (lstrip_hash base)"
  from valid_hex_expand[OF assms] obtain a b c d e f where
    e: "?h = [a, b, c, d, e, f]" and x: "is_hex a" "is_hex b" "is_hex c" "is_hex d" "is_hex e" "is_hex f"
    by blast
  from is_hex_props(12)[OF x(1)] e have "lstrip_hash (CHR ''#'' # ?h) = ?h"
    by (simp add: lstrip_hash_def)
  with e x show ?thesis by (simp add: valid_hex_def)
qed

lemma canonical_full_iff:
  assumes "length (expand3 (lstrip_hash base)) = 6"
  shows "canonical_hex (CHR ''#'' # expand3 (lstrip_hash base))
     \<longleftrightarrow> list_all is_lower_hex (lstrip_hash base)"
proof -
  have "set (expand3 h) = set h" for h :: string
  proof (cases "length h = 3")
    case True
    then obtain x y z where "h = [x, y, z]" by (auto simp: length3_conv)
    then show ?thesis by (auto simp: expand3_def)
  next
    case False
    then show ?thesis by (simp add: expand3_def)
  qed
  then show ?thesis using assms by (simp add: canonical_hex_def list_all_iff)
qed

section \<open>What \<open>generate\<close> returns\<close>

lemma generate_unknown_harmony:
  assumes "length (expand3 (lstrip_hash base)) = 6" "map_of HARMONY_ANGLES harmony = None"
  shows "generate base harmony name uuid now = Inl UnknownHarmonyType"
  using assms by (simp add: generate_def Let_def)

lemma generate_bad_digits:
  assumes "length (expand3 (lstrip_hash base)) = 6" "map_of HARMONY_ANGLES harmony = Some angles"
    and "hex_to_rgb base = Inl e"
  shows "generate base harmony name uuid now = Inl InvalidLiteral"
  using assms hex_to_rgb_error[OF assms(3)]
  by (simp add: generate_def Let_def full_hex_parse)

lemma generate_Inr_D:
  assumes "generate base harmony name uuid now = Inr p"
  shows "length (expand3 (lstrip_hash base)) = 6"
    and "p_base_color p = CHR ''#'' # expand3 (lstrip_hash base)"
    and "p_harmony p = harmony" and "p_id p = uuid" and "p_created_at p = now"
    and "\<exists>angles. map_of HARMONY_ANGLES harmony = Some angles"
  using assms
  by (auto simp: generate_def Let_def ebind_Inr_iff split: if_splits option.splits)

lemma swatch_of_rotate:
  assumes "ebind (rotate_hue c d) (\<lambda>x. new_ColorSwatch x n rl) = Inr sw"
  shows "rotate_hue c d = Inr (sw_hex sw)" "canonical_hex (sw_hex sw)" "sw_role sw = rl"
    "sw_name sw = n"
  using assms by (auto simp: ebind_Inr_iff dest: new_ColorSwatch_fields rotate_hue_canonical)

lemma swatch_of_adjust:
  assumes "ebind (adjust_lightness c d) (\<lambda>x. new_ColorSwatch x n rl) = Inr sw"
  shows "adjust_lightness c d = Inr (sw_hex sw)" "canonical_hex (sw_hex sw)" "sw_role sw = rl"
    "sw_name sw = n"
  using assms by (auto simp: ebind_Inr_iff dest: new_ColorSwatch_fields adjust_lightness_canonical)

lemma map_err_all:
  assumes "map_err f xs = Inr ys" and "\<And>x y. f x = Inr y \<Longrightarrow> Q y"
  shows "list_all Q ys"
proof -
  from map_err_sound[OF assms(1)] have "list_all2 (\<lambda>x y. f x = Inr y) xs ys" .
  then show ?thesis
    using assms(2) by (induction rule: list_all2_induct) auto
qed

lemma monochromatic_swatches_canonical:
  assumes "monochromatic_swatches full name l = Inr sws"
  shows "list_all (\<lambda>sw. canonical_hex (sw_hex sw)) sws"
  using assms unfolding monochromatic_swatches_def
  by (rule map_err_all) (auto dest: swatch_of_adjust(2))

lemma rotated_swatches_canonical:
  assumes "rotated_swatches full name angles = Inr sws"
  shows "list_all (\<lambda>sw. canonical_hex (sw_hex sw)) sws"
  using assms unfolding rotated_swatches_def
  by (rule map_err_all) (auto dest: swatch_of_rotate(2))

lemma harmony_swatches_canonical:
  assumes "harmony_swatches full name angles = Inr sws"
  shows "list_all (\<lambda>sw. canonical_hex (sw_hex sw)) sws"
proof -
  from assms obtain rotated c1 light c2 dark where
    r: "rotated_swatches full name angles = Inr rotated"
    and l: "adjust_lightness full (flit (38 / 100)) = Inr c1"
       "new_ColorSwatch c1 (name_or_color name @ ''-light'') ''background'' = Inr light"
    and d: "adjust_lightness full (- flit (38 / 100)) = Inr c2"
       "new_ColorSwatch c2 (name_or_color name @ ''-dark'') ''text'' = Inr dark"
    and s: "sws = rotated @ [light, dark]"
    unfolding harmony_swatches_def ebind_Inr_iff by blast
  from l d have "canonical_hex (sw_hex light)" "canonical_hex (sw_hex dark)"
    by (auto dest: new_ColorSwatch_fields adjust_lightness_canonical)
  with rotated_swatches_canonical[OF r] s show ?thesis by simp
qed

lemma generate_colors_D:
  assumes "generate base harmony name uuid now = Inr p"
  shows "(\<exists>l. monochromatic_swatches (CHR ''#'' # expand3 (lstrip_hash base)) name l = Inr (p_colors p))
     \<or> (\<exists>angles. harmony_swatches (CHR ''#'' # expand3 (lstrip_hash base)) name angles = Inr (p_colors p))"
proof -
  from assms obtain angles r g b h0 l s sws where
    "(if harmony = ''monochromatic''
      then monochromatic_swatches (CHR ''#'' # expand3 (lstrip_hash base)) name l
      else harmony_swatches (CHR ''#'' # expand3 (lstrip_hash base)) name angles) = Inr sws"
    and "p_colors p = sws"
    by (auto simp: generate_def Let_def ebind_Inr_iff split: if_splits option.splits)
  then show ?thesis by (cases "harmony = ''monochromatic''") auto
qed

lemma generate_swatches_canonical:
  assumes "generate base harmony name uuid now = Inr p"
  shows "list_all (\<lambda>sw. canonical_hex (sw_hex sw)) (p_colors p)"
  using generate_colors_D[OF assms]
  by (auto dest: monochromatic_swatches_canonical harmony_swatches_canonical)

lemma canonical_valid: "canonical_hex c \<Longrightarrow> valid_hex c"
  by (rule canonical_hex_normal_form(1))

lemma rotated_swatches_total:
  assumes "valid_hex full"
  shows "\<exists>rot. rotated_swatches full name angles = Inr rot
     \<and> list_all2 (\<lambda>(i, a) sw. rotate_hue full (float_of_int a) = Inr (sw_hex sw)
            \<and> sw_role sw = role_at i \<and> sw_name sw = swatch_name name i) (enumerate 0 angles) rot"
proof -
  let ?f = "\<lambda>(i, angle). ebind (rotate_hue full (float_of_int angle))
              (\<lambda>c. new_ColorSwatch c (swatch_name name i) (role_at i))"
  let ?P = "\<lambda>(i, a) sw. rotate_hue full (float_of_int a) = Inr (sw_hex sw)
            \<and> sw_role sw = role_at i \<and> sw_name sw = swatch_name name i"
  have step: "\<exists>y. ?f x = Inr y \<and> ?P x y" for x
  proof (cases x)
    case (Pair i a)
    from rotate_hue_total[OF assms, of "float_of_int a"] obtain c where
      c: "rotate_hue full (float_of_int a) = Inr c" "canonical_hex c" by blast
    from new_ColorSwatch_total[OF canonical_valid[OF c(2)], of "swatch_name name i" "role_at i"]
    obtain sw where "new_ColorSwatch c (swatch_name name i) (role_at i) = Inr sw"
      "sw_hex sw = c" "sw_name sw = swatch_name name i" "sw_role sw = role_at i" by blast
    with c Pair show ?thesis by simp
  qed
  have "\<exists>ys. map_err ?f (enumerate 0 angles) = Inr ys \<and> list_all2 ?P (enumerate 0 angles) ys"
    by (rule map_err_all2) (use step in blast)
  then show ?thesis by (simp only: rotated_swatches_def)
qed

lemma harmony_swatches_total:
  assumes v: "valid_hex full"
    and p: "hex_to_rgb full = Inr (r, g, b)" "channels_hls r g b = Inr (h, l, s)"
  shows "\<exists>rot light dark. harmony_swatches full name angles = Inr (rot @ [light, dark])
     \<and> list_all2 (\<lambda>(i, a) sw. rotate_hue full (float_of_int a) = Inr (sw_hex sw)
            \<and> sw_role sw = role_at i \<and> sw_name sw = swatch_name name i) (enumerate 0 angles) rot
     \<and> sw_hex light = hls_hex (fmul h 360) (max 0 (min 1 (fadd l (flit (38 / 100))))) s
     \<and> sw_role light = ''background'' \<and> sw_name light = name_or_color name @ ''-light''
     \<and> sw_hex dark = hls_hex (fmul h 360) (max 0 (min 1 (fadd l (- flit (38 / 100))))) s
     \<and> sw_role dark = ''text'' \<and> sw_name dark = name_or_color name @ ''-dark''"
proof -
  from rotated_swatches_total[OF v, of name angles] obtain rot where
    rot: "rotated_swatches full name angles = Inr rot"
      "list_all2 (\<lambda>(i, a) sw. rotate_hue full (float_of_int a) = Inr (sw_hex sw)
            \<and> sw_role sw = role_at i \<and> sw_name sw = swatch_name name i) (enumerate 0 angles) rot"
    by blast
  let ?c1 = "hls_hex (fmul h 360) (max 0 (min 1 (fadd l (flit (38 / 100))))) s"
  let ?c2 = "hls_hex (fmul h 360) (max 0 (min 1 (fadd l (- flit (38 / 100))))) s"
  have a1: "adjust_lightness full (flit (38 / 100)) = Inr ?c1"
    and a2: "adjust_lightness full (- flit (38 / 100)) = Inr ?c2"
    by (rule adjust_lightness_eq[OF p])+
  from new_ColorSwatch_total[OF canonical_valid[OF hls_hex_canonical],
      of "fmul h 360" "max 0 (min 1 (fadd l (flit (38 / 100))))" s
        "name_or_color name @ ''-light''" "''background''"]
  obtain light where light: "new_ColorSwatch ?c1 (name_or_color name @ ''-light'') ''background'' = Inr light"
    "sw_hex light = ?c1" "sw_name light = name_or_color name @ ''-light''" "sw_role light = ''background''"
    by blast
  from new_ColorSwatch_total[OF canonical_valid[OF hls_hex_canonical],
      of "fmul h 360" "max 0 (min 1 (fadd l (- flit (38 / 100))))" s
        "name_or_color name @ ''-dark''" "''text''"]
  obtain dark where dark: "new_ColorSwatch ?c2 (name_or_color name @ ''-dark'') ''text'' = Inr dark"
    "sw_hex dark = ?c2" "sw_name dark = name_or_color name @ ''-dark''" "sw_role dark = ''text''"
    by blast
  have "harmony_swatches full name angles = Inr (rot @ [light, dark])"
    by (simp only: harmony_swatches_def rot(1) a1 a2 light(1) dark(1) ebind_Inr)
  with rot(2) light dark show ?thesis by blast
qed

lemma monochromatic_swatches_total:
  assumes "valid_hex full"
  shows "\<exists>sws. monochromatic_swatches full name l = Inr sws
     \<and> list_all2 (\<lambda>(i, (lv, role)) sw. adjust_lightness full (fsub lv l) = Inr (sw_hex sw)
            \<and> sw_role sw = role \<and> sw_name sw = swatch_name name i) (enumerate 0 MONO_STEPS) sws"
proof -
  let ?f = "\<lambda>(i, (lv, role)). ebind (adjust_lightness full (fsub lv l))
              (\<lambda>c. new_ColorSwatch c (swatch_name name i) role)"
  let ?P = "\<lambda>(i, (lv, role)) sw. adjust_lightness full (fsub lv l) = Inr (sw_hex sw)
            \<and> sw_role sw = role \<and> sw_name sw = swatch_name name i"
  have step: "\<exists>y. ?f x = Inr y \<and> ?P x y" for x
  proof (cases x)
    case (fields i lv role)
    from adjust_lightness_total[OF assms, of "fsub lv l"] obtain c where
      c: "adjust_lightness full (fsub lv l) = Inr c" "canonical_hex c" by blast
    from new_ColorSwatch_total[OF canonical_valid[OF c(2)], of "swatch_name name i" role]
    obtain sw where "new_ColorSwatch c (swatch_name name i) role = Inr sw"
      "sw_hex sw = c" "sw_name sw = swatch_name name i" "sw_role sw = role" by blast
    with c fields show ?thesis by simp
  qed
  have "\<exists>ys. map_err ?f (enumerate 0 MONO_STEPS) = Inr ys \<and> list_all2 ?P (enumerate 0 MONO_STEPS) ys"
    by (rule map_err_all2) (use step in blast)
  then show ?thesis by (simp only: monochromatic_swatches_def)
qed

lemma generate_total:
  assumes v: "valid_hex base" and a: "map_of HARMONY_ANGLES harmony = Some angles"
  shows "\<exists>p r g b h l s. generate base harmony name uuid now = Inr p
     \<and> hex_to_rgb (CHR ''#'' # expand3 (lstrip_hash base)) = Inr (r, g, b)
     \<and> channels_hls r g b = Inr (h, l, s)
     \<and> (if harmony = ''monochromatic''
         then monochromatic_swatches (CHR ''#'' # expand3 (lstrip_hash base)) name l
         else harmony_swatches (CHR ''#'' # expand3 (lstrip_hash base)) name angles) = Inr (p_colors p)"
proof -
  let ?full = "CHR ''#'' # expand3 (lstrip_hash base)"
  note vf = full_hex_valid[OF v]
  from valid_hex_hls[OF vf] obtain r g b h l s where
    p: "hex_to_rgb ?full = Inr (r, g, b)" "channels_hls r g b = Inr (h, l, s)" by blast
  obtain sws where sws: "(if harmony = ''monochromatic''
         then monochromatic_swatches ?full name l
         else harmony_swatches ?full name angles) = Inr sws"
    using monochromatic_swatches_total[OF vf, of name l]
      harmony_swatches_total[OF vf p, of name angles] by (cases "harmony = ''monochromatic''") auto
  then have "generate base harmony name uuid now =
      Inr \<lparr>p_id = uuid, p_name = (if name = [] then title harmony @ '' Palette'' else name),
           p_base_color = ?full, p_harmony = harmony, p_colors = sws, p_tags = [harmony],
           p_created_at = now, p_description = []\<rparr>"
    using valid_hex_length[OF v] a p by (simp add: generate_def Let_def)
  with p sws show ?thesis by force
qed

lemma angles_short: "map_of HARMONY_ANGLES harmony = Some angles \<Longrightarrow> length angles \<le> 4"
  by (auto simp: HARMONY_ANGLES_def split: if_splits)

lemma roles_prefix: "n \<le> 4 \<Longrightarrow> map role_at [0..<n] = take n ROLES"
proof -
  assume "n \<le> 4"
  then consider "n = 0" | "n = 1" | "n = 2" | "n = 3" | "n = 4" by linarith
  then show ?thesis
    by cases (simp_all add: upt_rec role_at_def ROLES_def)
qed

lemma enumerate_all2_from:
  assumes "list_all2 (\<lambda>(i, a) sw. F a = Inr (G sw) \<and> R sw = Q i \<and> N sw = M i) (enumerate n xs) ys"
  shows "length ys = length xs \<and> map R ys = map Q [n..<n + length xs]
    \<and> map (\<lambda>sw. Inr (G sw)) ys = map F xs"
  using assms
proof (induction xs arbitrary: n ys)
  case Nil
  then show ?case by simp
next
  case (Cons x xs)
  from Cons.prems obtain y ys' where ys: "ys = y # ys'"
    and hd: "F x = Inr (G y)" "R y = Q n"
    and tl: "list_all2 (\<lambda>(i, a) sw. F a = Inr (G sw) \<and> R sw = Q i \<and> N sw = M i)
               (enumerate (Suc n) xs) ys'"
    by (cases ys) auto
  from Cons.IH[OF tl] have ih: "length ys' = length xs"
    "map R ys' = map Q [Suc n..<Suc n + length xs]" "map (\<lambda>sw. Inr (G sw)) ys' = map F xs"
    by simp_all
  have "[n..<n + length (x # xs)] = n # [Suc n..<Suc n + length xs]"
    by (subst upt_rec) simp
  with ys hd ih show ?case by simp
qed

lemma enumerate_all2_maps:
  assumes "list_all2 (\<lambda>(i, a) sw. F a = Inr (G sw) \<and> R sw = Q i \<and> N sw = M i) (enumerate 0 xs) ys"
  shows "length ys = length xs" "map R ys = map Q [0..<length xs]"
    "map (\<lambda>sw. Inr (G sw)) ys = map F xs"
  using enumerate_all2_from[OF assms] by simp_all

section \<open>Which errors the later steps of \<open>generate\<close> can raise\<close>

lemma ebind_Inl_iff: "ebind m f = Inl e \<longleftrightarrow> m = Inl e \<or> (\<exists>x. m = Inr x \<and> f x = Inl e)"
  by (cases m) (simp_all add: ebind_def)

lemma map_err_Inl:
  assumes "map_err f xs = Inl e"
  shows "\<exists>x\<in>set xs. f x = Inl e"
  using assms by (induction xs) (auto split: sum.splits)

lemma fdiv_error: "fdiv x y = Inl e \<Longrightarrow> e = ZeroDivision"
  by (auto simp: fdiv_def split: if_splits)

lemma int_truediv_error: "int_truediv x y = Inl e \<Longrightarrow> e = ZeroDivision"
  by (auto simp: int_truediv_def split: if_splits)

lemma rgb_to_hls_error: "rgb_to_hls r g b = Inl e \<Longrightarrow> e = ZeroDivision"
  unfolding rgb_to_hls_def Let_def
  by (auto simp: ebind_Inl_iff split: if_splits dest: fdiv_error)

lemma channels_hls_error: "channels_hls r g b = Inl e \<Longrightarrow> e = ZeroDivision"
  unfolding channels_hls_def
  by (auto simp: ebind_Inl_iff dest: int_truediv_error rgb_to_hls_error)

lemma rotate_hue_error: "rotate_hue c d = Inl e \<Longrightarrow> e = InvalidLiteral \<or> e = ZeroDivision"
  unfolding rotate_hue_def
  by (auto simp: ebind_Inl_iff dest: hex_to_rgb_error channels_hls_error)

lemma adjust_lightness_error:
  "adjust_lightness c d = Inl e \<Longrightarrow> e = InvalidLiteral \<or> e = ZeroDivision"
  unfolding adjust_lightness_def
  by (auto simp: ebind_Inl_iff dest: hex_to_rgb_error channels_hls_error)

lemma new_ColorSwatch_error:
  "new_ColorSwatch c n rl = Inl e \<Longrightarrow> e = InvalidLiteral \<or> e = ZeroDivision"
  unfolding new_ColorSwatch_def
  by (auto simp: ebind_Inl_iff dest: hex_to_rgb_error channels_hls_error)

lemma rotated_swatches_error:
  "rotated_swatches full name angles = Inl e \<Longrightarrow> e = InvalidLiteral \<or> e = ZeroDivision"
  unfolding rotated_swatches_def
  by (auto simp: ebind_Inl_iff dest!: map_err_Inl dest: rotate_hue_error new_ColorSwatch_error)

lemma monochromatic_swatches_error:
  "monochromatic_swatches full name l = Inl e \<Longrightarrow> e = InvalidLiteral \<or> e = ZeroDivision"
  unfolding monochromatic_swatches_def
  by (auto simp: ebind_Inl_iff dest!: map_err_Inl dest: adjust_lightness_error new_ColorSwatch_error)

lemma harmony_swatches_error:
  "harmony_swatches full name angles = Inl e \<Longrightarrow> e = InvalidLiteral \<or> e = ZeroDivision"
  unfolding harmony_swatches_def
  by (auto simp: ebind_Inl_iff
      dest: rotated_swatches_error adjust_lightness_error new_ColorSwatch_error)

lemma generate_later_error:
  assumes "generate base harmony name uuid now = Inl e"
    and "length (expand3 (lstrip_hash base)) = 6" "map_of HARMONY_ANGLES harmony = Some angles"
  shows "e = InvalidLiteral \<or> e = ZeroDivision"
  using assms
  by (auto simp: generate_def Let_def ebind_Inl_iff split: if_splits
      dest: hex_to_rgb_error channels_hls_error monochromatic_swatches_error harmony_swatches_error)

lemma rotate_hue_parsed:
  assumes "hex_to_rgb c = Inr x"
  shows "rotate_hue c d \<noteq> Inl InvalidLiteral"
  using assms
  by (auto simp: rotate_hue_def ebind_Inl_iff split: prod.splits dest: channels_hls_error)

lemma adjust_lightness_parsed:
  assumes "hex_to_rgb c = Inr x"
  shows "adjust_lightness c d \<noteq> Inl InvalidLiteral"
  using assms
  by (auto simp: adjust_lightness_def ebind_Inl_iff split: prod.splits dest: channels_hls_error)

lemma new_ColorSwatch_canonical:
  assumes "canonical_hex c"
  shows "new_ColorSwatch c n rl \<noteq> Inl e"
  using new_ColorSwatch_total[OF canonical_valid[OF assms], of n rl] by auto

lemma rotated_swatches_parsed:
  assumes "hex_to_rgb full = Inr x"
  shows "rotated_swatches full name angles \<noteq> Inl InvalidLiteral"
proof
  assume "rotated_swatches full name angles = Inl InvalidLiteral"
  then obtain i a where
    "ebind (rotate_hue full (float_of_int a)) (\<lambda>c. new_ColorSwatch c (swatch_name name i) (role_at i))
      = Inl InvalidLiteral"
    unfolding rotated_swatches_def by (auto dest!: map_err_Inl)
  then show False
    using rotate_hue_parsed[OF assms]
    by (auto simp: ebind_Inl_iff dest: rotate_hue_canonical new_ColorSwatch_canonical)
qed

lemma monochromatic_swatches_parsed:
  assumes "hex_to_rgb full = Inr x"
  shows "monochromatic_swatches full name l \<noteq> Inl InvalidLiteral"
proof
  assume "monochromatic_swatches full name l = Inl InvalidLiteral"
  then obtain i d rl where
    "ebind (adjust_lightness full d) (\<lambda>c. new_ColorSwatch c (swatch_name name i) rl)
      = Inl InvalidLiteral"
    unfolding monochromatic_swatches_def by (auto dest!: map_err_Inl)
  then show False
    using adjust_lightness_parsed[OF assms]
    by (auto simp: ebind_Inl_iff dest: adjust_lightness_canonical new_ColorSwatch_canonical)
qed

lemma harmony_swatches_parsed:
  assumes "hex_to_rgb full = Inr x"
  shows "harmony_swatches full name angles \<noteq> Inl InvalidLiteral"
  unfolding harmony_swatches_def
  using rotated_swatches_parsed[OF assms] adjust_lightness_parsed[OF assms]
  by (auto simp: ebind_Inl_iff dest: adjust_lightness_canonical new_ColorSwatch_canonical)

lemma generate_parsed:
  assumes "length (expand3 (lstrip_hash base)) = 6" "map_of HARMONY_ANGLES harmony = Some angles"
    and "hex_to_rgb (CHR ''#'' # expand3 (lstrip_hash base)) = Inr x"
  shows "generate base harmony name uuid now \<noteq> Inl InvalidLiteral"
  using assms monochromatic_swatches_parsed[OF assms(3)] harmony_swatches_parsed[OF assms(3)]
  by (auto simp: generate_def Let_def ebind_Inl_iff split: prod.splits if_splits dest: channels_hls_error)

lemma generate_bad_length:
  assumes "length (lstrip_hash base) \<noteq> 3" "length (lstrip_hash base) \<noteq> 6"
  shows "generate base harmony name uuid now = Inl InvalidHexColor"
  using assms by (simp add: generate_def Let_def expand3_def)
section \<open>Scales, gradients and blending\<close>

lemma float_of_int_small: "\<bar>n\<bar> < 2 ^ 53 \<Longrightarrow> float_of_int n = of_int n"
  by (simp add: float_of_int_def rnd_of_int)

lemma float_of_int_eq_0_iff [simp]: "float_of_int n = 0 \<longleftrightarrow> n = 0"
  by (simp add: float_of_int_def)


lemma map_err_total:
  assumes "\<And>x. x \<in> set xs \<Longrightarrow> \<exists>y. f x = Inr y"
  shows "\<exists>ys. map_err f xs = Inr ys \<and> length ys = length xs"
proof -
  from assms have "\<forall>x\<in>set xs. \<exists>y. f x = Inr y \<and> True" by simp
  from map_err_all2[of xs f "\<lambda>_ _. True", OF this] show ?thesis
    by (auto dest: list_all2_lengthD)
qed






lemma blend_colors_eq:
  assumes "hex_to_rgb a = Inr (r1, g1, b1)" "hex_to_rgb b = Inr (r2, g2, b2)"
  shows "blend_colors a b ratio =
     Inr (rgb_to_hex (blend_channel r1 r2 (max 0 (min 1 ratio)))
            (blend_channel g1 g2 (max 0 (min 1 ratio)))
            (blend_channel b1 b2 (max 0 (min 1 ratio))))"
  using assms by (simp add: blend_colors_def Let_def)


lemma trunc_zero_of_int [simp]: "trunc_zero (of_int n) = n"
  by (simp add: trunc_zero_def)

lemma trunc_zero_nonneg: "0 \<le> x \<Longrightarrow> trunc_zero x = \<lfloor>x\<rfloor>"
  by (simp add: trunc_zero_def)

lemma blend_channel_zero:
  assumes "\<bar>c1\<bar> \<le> 255"
  shows "blend_channel c1 c2 0 = c1"
proof -
  from assms have "\<bar>c1\<bar> < 2 ^ 53" by simp
  then show ?thesis
    by (simp add: blend_channel_def lerp_def fmul_def fadd_def py_int_def float_of_int_small
        rnd_of_int)
qed

lemma blend_channel_one:
  assumes "\<bar>c1\<bar> \<le> 255" "\<bar>c2\<bar> \<le> 255"
  shows "blend_channel c1 c2 1 = c2"
proof -
  from assms have s: "\<bar>c1\<bar> < 2 ^ 53" "\<bar>c2 - c1\<bar> < 2 ^ 53" "\<bar>c2\<bar> < 2 ^ 53" by simp_all
  have "lerp c1 c2 1 = rnd (of_int c1 + of_int (c2 - c1))"
    by (simp add: lerp_def fmul_def fadd_def float_of_int_small[OF s(1)]
        float_of_int_small[OF s(2)] rnd_of_int[OF s(2)] del: of_int_diff)
  also have "of_int c1 + of_int (c2 - c1) = (of_int c2 :: rat)" by simp
  finally show ?thesis by (simp add: blend_channel_def py_int_def rnd_of_int[OF s(3)])
qed

lemma lerp_between:
  assumes c: "0 \<le> c1" "c1 \<le> 255" "0 \<le> c2" "c2 \<le> 255" and t: "0 \<le> t" "t \<le> 1"
  shows "of_int (min c1 c2) \<le> lerp c1 c2 t" "lerp c1 c2 t \<le> of_int (max c1 c2)"
proof -
  from c have s: "\<bar>c1\<bar> < 2 ^ 53" "\<bar>c2 - c1\<bar> < 2 ^ 53" "\<bar>c2\<bar> < 2 ^ 53" by simp_all
  let ?d = "of_int (c2 - c1) :: rat"
  let ?m = "rnd (?d * t)"
  have l: "lerp c1 c2 t = rnd (of_int c1 + ?m)"
    by (simp add: lerp_def fmul_def fadd_def float_of_int_small[OF s(1)]
        float_of_int_small[OF s(2)] del: of_int_diff)
  have fix1: "rnd (of_int c1) = of_int c1" "rnd (of_int c2) = of_int c2" "rnd ?d = ?d"
    using s by (simp_all only: rnd_of_int)
  show "of_int (min c1 c2) \<le> lerp c1 c2 t"
  proof (cases "c1 \<le> c2")
    case True
    then have "0 \<le> ?d * t" using t by simp
    then have "0 \<le> ?m" by (rule rnd_nonneg)
    then have "of_int c1 \<le> of_int c1 + ?m" by simp
    from rnd_mono[OF this] True show ?thesis by (simp only: l fix1 min_def if_True)
  next
    case False
    then have neg: "?d \<le> 0" by simp
    then have "?d * 1 \<le> ?d * t" using t by (intro mult_left_mono_neg) simp_all
    then have "?d \<le> ?m" using rnd_mono[of ?d "?d * t"] by (simp only: fix1 mult_1_right)
    then have "of_int c2 \<le> of_int c1 + ?m" by simp
    from rnd_mono[OF this] False show ?thesis by (simp only: l fix1 min_def if_False)
  qed
  show "lerp c1 c2 t \<le> of_int (max c1 c2)"
  proof (cases "c1 \<le> c2")
    case True
    then have pos: "0 \<le> ?d" by simp
    then have "?d * t \<le> ?d * 1" using t by (intro mult_left_mono) simp_all
    then have "?m \<le> ?d" using rnd_mono[of "?d * t" ?d] by (simp only: fix1 mult_1_right)
    then have "of_int c1 + ?m \<le> of_int c2" by simp
    from rnd_mono[OF this] True show ?thesis by (simp only: l fix1 max_def if_True)
  next
    case False
    then have "?d * t \<le> 0" using t by (simp add: mult_le_0_iff)
    then have "?m \<le> 0" using rnd_mono[of "?d * t" 0] by simp
    then have "of_int c1 + ?m \<le> of_int c1" by simp
    from rnd_mono[OF this] False show ?thesis by (simp only: l fix1 max_def if_False)
  qed
qed

lemma blend_channel_between:
  assumes c: "0 \<le> c1" "c1 \<le> 255" "0 \<le> c2" "c2 \<le> 255" and t: "0 \<le> t" "t \<le> 1"
  shows "blend_channel c1 c2 t = \<lfloor>lerp c1 c2 t\<rfloor>" "0 \<le> blend_channel c1 c2 t"
    "blend_channel c1 c2 t \<le> 255" "clamp255 (blend_channel c1 c2 t) = \<lfloor>lerp c1 c2 t\<rfloor>"
proof -
  note b = lerp_between[OF c t]
  from b(1) c have nn: "0 \<le> lerp c1 c2 t"
    by (metis (no_types) min_def of_int_0_le_iff order_trans)
  then show eq: "blend_channel c1 c2 t = \<lfloor>lerp c1 c2 t\<rfloor>"
    by (simp add: blend_channel_def py_int_def trunc_zero_nonneg)
  from nn show lo: "0 \<le> blend_channel c1 c2 t" by (simp add: eq)
  from b(2) have "\<lfloor>lerp c1 c2 t\<rfloor> \<le> max c1 c2" by (simp add: floor_le_iff)
  moreover from c have "max c1 c2 \<le> 255" by simp
  ultimately show hi: "blend_channel c1 c2 t \<le> 255" unfolding eq by linarith
  from lo hi show "clamp255 (blend_channel c1 c2 t) = \<lfloor>lerp c1 c2 t\<rfloor>"
    by (simp add: clamp255_def eq)
qed

lemma lerp_error:
  assumes c: "0 \<le> c1" "c1 \<le> 255" "0 \<le> c2" "c2 \<le> 255" and t: "0 \<le> t" "t \<le> 1"
  shows "\<bar>fadd (float_of_int c1) (fmul (float_of_int (c2 - c1)) t)
           - (of_int c1 + of_int (c2 - c1) * t)\<bar> \<le> 1 / 2 ^ 44"
proof -
  from c have s: "\<bar>c1\<bar> < 2 ^ 53" "\<bar>c2 - c1\<bar> < 2 ^ 53" by simp_all
  define d :: rat where "d = of_int (c2 - c1)"
  define x :: rat where "x = of_int c1 + d * t"
  define m where "m = rnd (d * t)"
  have l: "fadd (float_of_int c1) (fmul (float_of_int (c2 - c1)) t) = rnd (of_int c1 + m)"
    by (simp add: fmul_def fadd_def float_of_int_small[OF s(1)]
        float_of_int_small[OF s(2)] m_def d_def del: of_int_diff)
  have conv: "x = (1 - t) * of_int c1 + t * of_int c2"
    by (simp add: x_def d_def algebra_simps)
  have c1r: "(0::rat) \<le> of_int c1" "(of_int c1 :: rat) \<le> 255"
    and c2r: "(0::rat) \<le> of_int c2" "(of_int c2 :: rat) \<le> 255"
    using c by simp_all
  from t have t1: "0 \<le> 1 - t" by simp
  have x0: "0 \<le> x" unfolding conv using t t1 c1r c2r by simp
  have "(1 - t) * of_int c1 \<le> (1 - t) * 255" using t1 c1r(2) by (rule mult_left_mono[rotated])
  moreover have "t * of_int c2 \<le> t * 255" using t(1) c2r(2) by (rule mult_left_mono[rotated])
  ultimately have x1: "x \<le> 255" unfolding conv by (simp add: algebra_simps)
  have "\<bar>d\<bar> \<le> 255" using c by (simp add: d_def abs_le_iff)
  moreover have "\<bar>t\<bar> \<le> 1" using t by simp
  ultimately have "\<bar>d\<bar> * \<bar>t\<bar> \<le> 255 * 1" by (intro mult_mono) simp_all
  then have dt: "\<bar>d * t\<bar> \<le> 255" by (simp add: abs_mult)
  define u :: rat where "u = 1 / 2 ^ 53"
  have u: "0 \<le> u" "255 * u \<le> 1" "511 * u \<le> 1 / 2 ^ 44" by (simp_all add: u_def)
  have ru: "\<bar>rnd y - y\<bar> \<le> \<bar>y\<bar> * u" for y using rnd_error[of y] by (simp add: u_def)
  have "\<bar>d * t\<bar> * u \<le> 255 * u" using dt u(1) by (rule mult_right_mono)
  with ru[of "d * t"] have e1: "\<bar>m - d * t\<bar> \<le> 255 * u" unfolding m_def by linarith
  have xe: "of_int c1 + m - x = m - d * t" by (simp add: x_def)
  have se: "\<bar>(of_int c1 + m) - x\<bar> \<le> 255 * u" unfolding xe by (rule e1)
  have "\<bar>of_int c1 + m\<bar> \<le> 256" using se x0 x1 u(2) by linarith
  then have "\<bar>of_int c1 + m\<bar> * u \<le> 256 * u" using u(1) by (rule mult_right_mono)
  with ru[of "of_int c1 + m"]
  have e2: "\<bar>rnd (of_int c1 + m) - (of_int c1 + m)\<bar> \<le> 256 * u" by linarith
  have "\<bar>rnd (of_int c1 + m) - x\<bar> \<le> 511 * u" using se e2 by linarith
  also note u(3)
  finally show ?thesis unfolding l x_def d_def .
qed
section \<open>Luminance and contrast\<close>

lemma rnd_dyadics:
  "rnd (- (1 / 16)) = - (1 / 16)" "rnd (- (1 / 128)) = - (1 / 128)"
  "rnd (- (1 / 64)) = - (1 / 64)" "rnd (- (1 / 32)) = - (1 / 32)"
  "rnd (3 / 64) = 3 / 64" "rnd 8 = 8" "rnd (1 / 8) = 1 / 8" "rnd (1 / 2) = 1 / 2"
  using rnd_representable[of "- 1" "- 4"] rnd_representable[of "- 1" "- 7"]
    rnd_representable[of "- 1" "- 6"] rnd_representable[of "- 1" "- 5"]
    rnd_representable[of 3 "- 6"] rnd_representable[of 8 0]
    rnd_representable[of 1 "- 3"] rnd_representable[of 1 "- 1"]
  by (simp_all add: power_int_minus)

lemma rnd_ge: "a \<le> x \<Longrightarrow> rnd a = a \<Longrightarrow> a \<le> rnd x"
  using rnd_mono[of a x] by simp

lemma rnd_le: "x \<le> a \<Longrightarrow> rnd a = a \<Longrightarrow> rnd x \<le> a"
  using rnd_mono[of x a] by simp

lemma literal_facts:
  "0 \<le> flit (3928 / 100000)" "flit (3928 / 100000) < 1" "8 \<le> flit (1292 / 100)"
  "0 < flit (55 / 1000)" "0 < flit (1055 / 1000)" "0 < flit (24 / 10)"
  "3 / 64 \<le> flit (5 / 100)"
proof -
  show "0 \<le> flit (3928 / 100000)" by (simp add: flit_def rnd_nonneg)
  have "flit (3928 / 100000) \<le> 1 / 2"
    unfolding flit_def by (rule rnd_le) (simp_all add: rnd_dyadics)
  then show "flit (3928 / 100000) < 1" by simp
  show "8 \<le> flit (1292 / 100)"
    unfolding flit_def by (rule rnd_ge) (simp_all add: rnd_dyadics)
  show "0 < flit (55 / 1000)" "0 < flit (1055 / 1000)" "0 < flit (24 / 10)"
    by (simp_all add: flit_def rnd_pos)
  show "3 / 64 \<le> flit (5 / 100)"
    unfolding flit_def by (rule rnd_ge) (simp_all add: rnd_dyadics)
qed

lemma weight_unit: "0 \<le> q \<Longrightarrow> q \<le> 1 \<Longrightarrow> 0 \<le> flit q \<and> flit q \<le> 1"
  using rnd_unit_interval[of q] by (simp add: flit_def)

lemma one_plus_literal: "rnd (1 + flit (55 / 1000)) = flit (1055 / 1000)"
  unfolding flit_def by code_simp

lemma white_luminance:
  "fadd (fadd (fmul (flit (2126 / 10000)) 1) (fmul (flit (7152 / 10000)) 1))
     (fmul (flit (722 / 10000)) 1) = 1"
  by code_simp

lemma extreme_ratio: "py_round (rnd (fadd 1 (flit (5 / 100)) / fadd 0 (flit (5 / 100)))) 2 = 21"
  by code_simp

lemma py_round_mono: "x \<le> y \<Longrightarrow> py_round x n \<le> py_round y n"
proof -
  assume "x \<le> y"
  then have "x * 10 ^ n \<le> y * 10 ^ n" by simp
  then have "rne (x * 10 ^ n) \<le> rne (y * 10 ^ n)" by (rule rne_mono)
  then have "(of_int (rne (x * 10 ^ n)) :: rat) / 10 ^ n \<le> of_int (rne (y * 10 ^ n)) / 10 ^ n"
    by (simp add: divide_right_mono)
  then show ?thesis unfolding py_round_def by (rule rnd_mono)
qed

lemma py_round_one: "py_round 1 2 = 1"
  by (simp add: py_round_def rne_def)

lemma py_round_zero: "py_round 0 n = 0"
  by (simp add: py_round_def rne_def)

lemma linearize_eq:
  "linearize pw c0 =
     Inr (if rnd (of_int c0 / 255) \<le> flit (3928 / 100000)
          then fdivc (rnd (of_int c0 / 255)) (flit (1292 / 100))
          else pw (fdivc (fadd (rnd (of_int c0 / 255)) (flit (55 / 1000))) (flit (1055 / 1000)))
                 (flit (24 / 10)))"
  by (simp add: linearize_def int_truediv_255)

lemma linearize_lower:
  assumes c: "- 15 \<le> c0" and pw: "pow_nonneg pw"
  shows "\<exists>v. linearize pw c0 = Inr v \<and> - (1 / 128) \<le> v \<and> (0 \<le> c0 \<longrightarrow> 0 \<le> v)"
proof -
  define c where "c = rnd (of_int c0 / 255)"
  define k where "k = flit (3928 / 100000)"
  define d where "d = flit (1292 / 100)"
  define e where "e = flit (55 / 1000)"
  define f where "f = flit (1055 / 1000)"
  define g where "g = flit (24 / 10)"
  note lit = literal_facts[folded k_def d_def e_def f_def g_def]
  have eq: "linearize pw c0 = Inr (if c \<le> k then fdivc c d else pw (fdivc (fadd c e) f) g)"
    unfolding c_def k_def d_def e_def f_def g_def by (rule linearize_eq)
  have "- (1 / 16) \<le> (of_int c0 :: rat) / 255" using c by simp
  then have cl: "- (1 / 16) \<le> c" unfolding c_def by (rule rnd_ge) (rule rnd_dyadics)
  have cpos: "0 \<le> c" if "0 \<le> c0" using that by (simp add: c_def rnd_nonneg)
  show ?thesis
  proof (cases "c \<le> k")
    case True
    have d8: "8 \<le> d" by (rule lit(3))
    have "- (1 / 128) \<le> c / d"
    proof (cases "0 \<le> c")
      case True
      with d8 have "0 \<le> c / d" by simp
      then show ?thesis by simp
    next
      case False
      with d8 have "c / 8 \<le> c / d" by (intro divide_left_mono_neg) simp_all
      with cl show ?thesis by simp
    qed
    then have lo: "- (1 / 128) \<le> rnd (c / d)" by (rule rnd_ge) (rule rnd_dyadics)
    have nn: "0 \<le> rnd (c / d)" if "0 \<le> c0"
      using cpos[OF that] d8 by (intro rnd_nonneg) simp
    from True eq have "linearize pw c0 = Inr (rnd (c / d))" by (simp only: if_True fdivc_def)
    with lo nn show ?thesis by simp
  next
    case False
    with lit(1) have cp: "0 < c" by simp
    with lit(4) have "0 < c + e" by simp
    then have "0 < rnd (c + e)" by (rule rnd_pos)
    with lit(5) have "0 < rnd (c + e) / f" by simp
    then have "0 < rnd (rnd (c + e) / f)" by (rule rnd_pos)
    with pw have nn: "0 \<le> pw (rnd (rnd (c + e) / f)) g"
      by (simp add: pow_nonneg_def)
    from False eq have "linearize pw c0 = Inr (pw (rnd (rnd (c + e) / f)) g)"
      by (simp only: if_False fdivc_def fadd_def)
    with nn show ?thesis by simp
  qed
qed

lemma linearize_upper:
  assumes c: "0 \<le> c0" "c0 \<le> 255" and pw: "pow_faithful pw"
  shows "\<exists>v. linearize pw c0 = Inr v \<and> 0 \<le> v \<and> v \<le> 1"
proof -
  define c where "c = rnd (of_int c0 / 255)"
  define k where "k = flit (3928 / 100000)"
  define d where "d = flit (1292 / 100)"
  define e where "e = flit (55 / 1000)"
  define f where "f = flit (1055 / 1000)"
  define g where "g = flit (24 / 10)"
  note lit = literal_facts[folded k_def d_def e_def f_def g_def]
  have eq: "linearize pw c0 = Inr (if c \<le> k then fdivc c d else pw (fdivc (fadd c e) f) g)"
    unfolding c_def k_def d_def e_def f_def g_def by (rule linearize_eq)
  have opl: "rnd (1 + e) = f" unfolding e_def f_def by (rule one_plus_literal)
  from unit_channel[OF c] have cu: "0 \<le> c" "c \<le> 1" by (simp_all add: c_def)
  from pw have nn: "pow_nonneg pw" by (simp add: pow_faithful_def)
  from linearize_lower[OF _ nn, of c0] c(1) obtain v where
    v: "linearize pw c0 = Inr v" "0 \<le> v" by auto
  have "v \<le> 1"
  proof (cases "c \<le> k")
    case True
    have d8: "8 \<le> d" by (rule lit(3))
    with cu have "c / d \<le> 1 / 8" by (simp add: frac_le)
    then have "rnd (c / d) \<le> 1 / 8" by (rule rnd_le) (rule rnd_dyadics)
    moreover from True eq have "linearize pw c0 = Inr (rnd (c / d))"
      by (simp only: if_True fdivc_def)
    ultimately show ?thesis using v(1) by simp
  next
    case False
    with lit(1) have cp: "0 < c" by simp
    let ?b = "rnd (rnd (c + e) / f)"
    from cp lit(4) have "0 < c + e" by simp
    then have n0: "0 < rnd (c + e)" by (rule rnd_pos)
    with lit(5) have "0 < rnd (c + e) / f" by simp
    then have bpos: "0 < ?b" by (rule rnd_pos)
    from cu(2) have "c + e \<le> 1 + e" by simp
    from rnd_mono[OF this] have "rnd (c + e) \<le> f" by (simp only: opl)
    with lit(5) have "rnd (c + e) / f \<le> 1" by simp
    then have "?b \<le> 1" using rnd_mono[of "rnd (c + e) / f" 1] by simp
    with bpos lit(6) pw have "pw ?b g \<le> 1"
      by (simp add: pow_faithful_def)
    moreover from False eq have "linearize pw c0 = Inr (pw ?b g)"
      by (simp only: if_False fdivc_def fadd_def)
    ultimately show ?thesis using v(1) by simp
  qed
  with v show ?thesis by blast
qed

lemma weighted_lower:
  assumes "0 \<le> w" "w \<le> 1" "- (1 / 128) \<le> v"
  shows "- (1 / 128) \<le> fmul w v"
proof -
  have "- (1 / 128) \<le> w * v"
  proof (cases "0 \<le> v")
    case True
    with assms(1) have "0 \<le> w * v" by simp
    then show ?thesis by simp
  next
    case False
    then have "1 * v \<le> w * v" using assms(2) by (intro mult_right_mono_neg) simp_all
    with assms(3) show ?thesis by simp
  qed
  then show ?thesis unfolding fmul_def by (rule rnd_ge) (rule rnd_dyadics)
qed

lemma luminance_sum_lower:
  assumes "- (1 / 128) \<le> x" "- (1 / 128) \<le> y" "- (1 / 128) \<le> z"
  shows "- (1 / 32) \<le> fadd (fadd x y) z"
proof -
  from assms(1,2) have "- (1 / 64) \<le> x + y" by simp
  then have "- (1 / 64) \<le> fadd x y" unfolding fadd_def by (rule rnd_ge) (rule rnd_dyadics)
  with assms(3) have "- (1 / 32) \<le> fadd x y + z" by simp
  then show ?thesis unfolding fadd_def[of "fadd x y" z] by (rule rnd_ge) (rule rnd_dyadics)
qed

lemma luminance_sum_mono:
  assumes "x \<le> x'" "y \<le> y'" "z \<le> z'"
  shows "fadd (fadd x y) z \<le> fadd (fadd x' y') z'"
proof -
  from assms(1,2) have "fadd x y \<le> fadd x' y'" unfolding fadd_def by (intro rnd_mono) simp
  with assms(3) show ?thesis unfolding fadd_def[of "fadd x y"] fadd_def[of "fadd x' y'"]
    by (intro rnd_mono) simp
qed

lemma fmul_mono_right: "0 \<le> w \<Longrightarrow> x \<le> y \<Longrightarrow> fmul w x \<le> fmul w y"
  unfolding fmul_def by (intro rnd_mono mult_left_mono)

lemma relative_luminance_eq:
  assumes "hex_to_rgb c = Inr (r, g, b)" "linearize pw r = Inr lr" "linearize pw g = Inr lg"
    "linearize pw b = Inr lb"
  shows "relative_luminance pw c =
     Inr (fadd (fadd (fmul (flit (2126 / 10000)) lr) (fmul (flit (7152 / 10000)) lg))
            (fmul (flit (722 / 10000)) lb))"
  using assms by (simp add: relative_luminance_def)

section \<open>The channels of a string that \<open>hex_to_rgb\<close> accepts\<close>

lemma py_int16_hex_space:
  assumes "is_hex a" "is_space b"
  shows "py_int16 [a, b] = Inr (int (the_hex a))"
  using is_hex_props[OF assms(1)] is_space_props[OF assms(2)] assms
  by (simp add: py_defs)

lemma py_int16_sign_hex:
  assumes "is_sign a" "is_hex b"
  shows "py_int16 [a, b] = Inr (if a = CHR ''-'' then - int (the_hex b) else int (the_hex b))"
  using is_sign_props[OF assms(1)] is_hex_props[OF assms(2)] assms
  by (simp add: py_int16_def skip_prefix_def scan_digits_single)

lemma py_int16_sign_needs_hex:
  assumes "py_int16 [a, b] = Inr v" "is_sign a"
  shows "is_hex b"
proof (rule ccontr)
  assume "\<not> is_hex b"
  with is_sign_props[OF assms(2)] assms(2) have "py_int16 [a, b] = Inl InvalidLiteral"
    by (simp add: py_int16_def skip_prefix_def scan_digits_single)
  with assms(1) show False by simp
qed

lemma the_hex_le: "the_hex c \<le> 15"
proof (cases "is_hex c")
  case True
  from is_hex_props(8)[OF this] show ?thesis by simp
next
  case False
  then show ?thesis by (simp add: the_hex_def is_hex_def)
qed

lemma py_int16_range:
  assumes "py_int16 s = Inr v" "length s \<le> 2"
  shows "- 15 \<le> v \<and> v \<le> 255"
proof -
  from assms(2) consider "s = []" | a where "s = [a]" | a b where "s = [a, b]"
    by (cases s; cases "tl s"; cases "tl (tl s)"; simp)
  then show ?thesis
  proof cases
    case 1
    with assms(1) show ?thesis by (simp add: py_int16_nil)
  next
    case 2
    with assms(1) the_hex_le[of a] show ?thesis
      by (auto simp: py_int16_single split: if_splits)
  next
    case 3
    note ab = py_int16_two[OF assms(1)[unfolded 3]]
    consider (hh) "is_hex a" "is_hex b" | (hs) "is_hex a" "is_space b"
      | (sp) "is_space a" | (sg) "is_sign a"
      using ab by blast
    then show ?thesis
    proof cases
      case hh
      from py_int16_pair[OF hh] assms(1) 3 have "v = int (16 * the_hex a + the_hex b)" by simp
      with the_hex_le[of a] the_hex_le[of b] show ?thesis by simp
    next
      case hs
      from py_int16_hex_space[OF hs] assms(1) 3 have "v = int (the_hex a)" by simp
      with the_hex_le[of a] show ?thesis by simp
    next
      case sp
      with assms(1) 3 have "py_int16 [b] = Inr v" by (simp add: py_int16_skip_space)
      with the_hex_le[of b] show ?thesis by (auto simp: py_int16_single split: if_splits)
    next
      case sg
      from py_int16_sign_needs_hex[OF assms(1)[unfolded 3] sg] have hb: "is_hex b" .
      from py_int16_sign_hex[OF sg hb] assms(1) 3
      have "v = (if a = CHR ''-'' then - int (the_hex b) else int (the_hex b))" by simp
      with the_hex_le[of b] show ?thesis by (simp split: if_splits)
    qed
  qed
qed

lemma hex_to_rgb_range:
  assumes "hex_to_rgb s = Inr (r, g, b)"
  shows "- 15 \<le> r" "r \<le> 255" "- 15 \<le> g" "g \<le> 255" "- 15 \<le> b" "b \<le> 255"
proof -
  let ?h = "expand3 (lstrip_hash s)"
  from assms have p: "py_int16 (slice 0 2 ?h) = Inr r" "py_int16 (slice 2 4 ?h) = Inr g"
    "py_int16 (slice 4 6 ?h) = Inr b"
    by (simp_all add: hex_to_rgb_Inr_iff)
  have len: "length (slice 0 2 ?h) \<le> 2" "length (slice 2 4 ?h) \<le> 2" "length (slice 4 6 ?h) \<le> 2"
    by (simp_all add: slice_def)
  from py_int16_range[OF p(1) len(1)] py_int16_range[OF p(2) len(2)] py_int16_range[OF p(3) len(3)]
  show "- 15 \<le> r" "r \<le> 255" "- 15 \<le> g" "g \<le> 255" "- 15 \<le> b" "b \<le> 255"
    by simp_all
qed

section \<open>Luminance and contrast of accepted colours\<close>

lemma relative_luminance_error: "relative_luminance pw c = Inl e \<Longrightarrow> e = InvalidLiteral"
  unfolding relative_luminance_def
  by (auto simp: ebind_Inl_iff linearize_eq dest: hex_to_rgb_error)

lemma relative_luminance_lower:
  assumes "hex_to_rgb c = Inr t" and pw: "pow_nonneg pw"
  shows "\<exists>L. relative_luminance pw c = Inr L \<and> - (1 / 32) \<le> L"
proof -
  obtain r g b where t: "t = (r, g, b)" by (cases t)
  with assms(1) have p: "hex_to_rgb c = Inr (r, g, b)" by simp
  note rg = hex_to_rgb_range[OF p]
  from linearize_lower[OF rg(1) pw] linearize_lower[OF rg(3) pw] linearize_lower[OF rg(5) pw]
  obtain lr lg lb where l: "linearize pw r = Inr lr" "linearize pw g = Inr lg"
    "linearize pw b = Inr lb" and lo: "- (1 / 128) \<le> lr" "- (1 / 128) \<le> lg" "- (1 / 128) \<le> lb"
    by blast
  have w: "0 \<le> flit (2126 / 10000) \<and> flit (2126 / 10000) \<le> 1"
    "0 \<le> flit (7152 / 10000) \<and> flit (7152 / 10000) \<le> 1"
    "0 \<le> flit (722 / 10000) \<and> flit (722 / 10000) \<le> 1"
    by (rule weight_unit; simp)+
  from w lo have "- (1 / 128) \<le> fmul (flit (2126 / 10000)) lr"
    "- (1 / 128) \<le> fmul (flit (7152 / 10000)) lg" "- (1 / 128) \<le> fmul (flit (722 / 10000)) lb"
    by (simp_all only: weighted_lower)
  from luminance_sum_lower[OF this] relative_luminance_eq[OF p l] show ?thesis by blast
qed

lemma relative_luminance_unit:
  assumes v: "valid_hex c" and pw: "pow_faithful pw"
  shows "\<exists>L. relative_luminance pw c = Inr L \<and> 0 \<le> L \<and> L \<le> 1"
proof -
  from valid_hex_parse[OF v] obtain r g b where p: "hex_to_rgb c = Inr (r, g, b)"
    and rg: "0 \<le> r" "r \<le> 255" "0 \<le> g" "g \<le> 255" "0 \<le> b" "b \<le> 255" by blast
  from linearize_upper[OF rg(1,2) pw] linearize_upper[OF rg(3,4) pw] linearize_upper[OF rg(5,6) pw]
  obtain lr lg lb where l: "linearize pw r = Inr lr" "linearize pw g = Inr lg"
    "linearize pw b = Inr lb" and u: "0 \<le> lr" "lr \<le> 1" "0 \<le> lg" "lg \<le> 1" "0 \<le> lb" "lb \<le> 1"
    by blast
  let ?w1 = "flit (2126 / 10000)" and ?w2 = "flit (7152 / 10000)" and ?w3 = "flit (722 / 10000)"
  have w: "0 \<le> ?w1" "0 \<le> ?w2" "0 \<le> ?w3"
    using weight_unit[of "2126 / 10000"] weight_unit[of "7152 / 10000"] weight_unit[of "722 / 10000"]
    by simp_all
  let ?L = "fadd (fadd (fmul ?w1 lr) (fmul ?w2 lg)) (fmul ?w3 lb)"
  have "fadd (fadd (fmul ?w1 0) (fmul ?w2 0)) (fmul ?w3 0) \<le> ?L"
    by (intro luminance_sum_mono fmul_mono_right w u)
  then have lo: "0 \<le> ?L" by (simp add: fmul_def fadd_def)
  have "?L \<le> fadd (fadd (fmul ?w1 1) (fmul ?w2 1)) (fmul ?w3 1)"
    by (intro luminance_sum_mono fmul_mono_right w u)
  then have hi: "?L \<le> 1" by (simp only: white_luminance)
  from lo hi relative_luminance_eq[OF p l] show ?thesis by blast
qed

lemma contrast_divisor:
  assumes "- (1 / 32) \<le> L"
  shows "0 < fadd L (flit (5 / 100))"
proof -
  from assms literal_facts(7) have "0 < L + flit (5 / 100)" by simp
  then show ?thesis unfolding fadd_def by (rule rnd_pos)
qed

lemma wcag_contrast_ratio_eq:
  assumes "relative_luminance pw a = Inr l1" "relative_luminance pw b = Inr l2"
    and "- (1 / 32) \<le> l1" "- (1 / 32) \<le> l2"
  shows "wcag_contrast_ratio pw a b =
     Inr (py_round (rnd (fadd (max l1 l2) (flit (5 / 100)) / fadd (min l1 l2) (flit (5 / 100)))) 2)"
proof -
  from assms(3,4) have "- (1 / 32) \<le> min l1 l2" by simp
  from contrast_divisor[OF this] have "fadd (min l1 l2) (flit (5 / 100)) \<noteq> 0" by simp
  with assms(1,2) show ?thesis
    by (simp only: wcag_contrast_ratio_def Let_def ebind_Inr fdiv_def if_False)
qed

lemma wcag_contrast_ratio_total:
  assumes "hex_to_rgb a = Inr t" "hex_to_rgb b = Inr u" "pow_nonneg pw"
  shows "\<exists>q. wcag_contrast_ratio pw a b = Inr q"
proof -
  from relative_luminance_lower[OF assms(1,3)] relative_luminance_lower[OF assms(2,3)]
  obtain l1 l2 where "relative_luminance pw a = Inr l1" "relative_luminance pw b = Inr l2"
    "- (1 / 32) \<le> l1" "- (1 / 32) \<le> l2" by blast
  from wcag_contrast_ratio_eq[OF this] show ?thesis by blast
qed

lemma wcag_contrast_ratio_commute:
  "wcag_contrast_ratio pw a b = wcag_contrast_ratio pw b a"
proof (cases "relative_luminance pw a")
  case a: (Inl e)
  note ea = relative_luminance_error[OF a]
  show ?thesis
  proof (cases "relative_luminance pw b")
    case b: (Inl e')
    with a ea relative_luminance_error[OF b] show ?thesis
      by (simp add: wcag_contrast_ratio_def)
  next
    case b: (Inr l2)
    with a ea show ?thesis by (simp add: wcag_contrast_ratio_def)
  qed
next
  case a: (Inr l1)
  show ?thesis
  proof (cases "relative_luminance pw b")
    case b: (Inl e')
    with a relative_luminance_error[OF b] show ?thesis by (simp add: wcag_contrast_ratio_def)
  next
    case b: (Inr l2)
    with a show ?thesis
      by (simp add: wcag_contrast_ratio_def Let_def max.commute min.commute)
  qed
qed

lemma wcag_contrast_ratio_self:
  assumes "hex_to_rgb a = Inr t" "pow_nonneg pw"
  shows "wcag_contrast_ratio pw a a = Inr 1"
proof -
  from relative_luminance_lower[OF assms] obtain L where
    L: "relative_luminance pw a = Inr L" "- (1 / 32) \<le> L" by blast
  from contrast_divisor[OF L(2)] have "fadd L (flit (5 / 100)) \<noteq> 0" by simp
  then have "fadd L (flit (5 / 100)) / fadd L (flit (5 / 100)) = 1" by simp
  with wcag_contrast_ratio_eq[OF L(1) L(1) L(2) L(2)] show ?thesis
    by (simp add: py_round_one)
qed

lemma wcag_contrast_ratio_range:
  assumes "valid_hex a" "valid_hex b" "pow_faithful pw"
  shows "\<exists>q. wcag_contrast_ratio pw a b = Inr q \<and> 1 \<le> q \<and> q \<le> 21"
proof -
  from relative_luminance_unit[OF assms(1,3)] relative_luminance_unit[OF assms(2,3)]
  obtain l1 l2 where l: "relative_luminance pw a = Inr l1" "relative_luminance pw b = Inr l2"
    and u: "0 \<le> l1" "l1 \<le> 1" "0 \<le> l2" "l2 \<le> 1" by blast
  define hi where "hi = max l1 l2"
  define lo where "lo = min l1 l2"
  define c where "c = flit (5 / 100)"
  from u have b: "0 \<le> lo" "lo \<le> hi" "hi \<le> 1" by (simp_all add: hi_def lo_def)
  from u have "- (1 / 32) \<le> l1" "- (1 / 32) \<le> l2" by simp_all
  from wcag_contrast_ratio_eq[OF l this]
  have eq: "wcag_contrast_ratio pw a b = Inr (py_round (rnd (fadd hi c / fadd lo c)) 2)"
    by (simp only: hi_def lo_def c_def)
  from b(1) have "- (1 / 32) \<le> lo" by simp
  from contrast_divisor[OF this] have dpos: "0 < fadd lo c" by (simp only: c_def)
  have "- (1 / 32) \<le> (0::rat)" by simp
  from contrast_divisor[OF this] have zpos: "0 < fadd 0 c" by (simp only: c_def)
  have m1: "fadd lo c \<le> fadd hi c" using b(2) unfolding fadd_def by (intro rnd_mono) simp
  have m2: "fadd hi c \<le> fadd 1 c" using b(3) unfolding fadd_def by (intro rnd_mono) simp
  have m3: "fadd 0 c \<le> fadd lo c" using b(1) unfolding fadd_def by (intro rnd_mono) simp
  from m1 dpos have "1 \<le> fadd hi c / fadd lo c" by simp
  then have "1 \<le> rnd (fadd hi c / fadd lo c)" by (rule rnd_ge) simp
  from py_round_mono[OF this, of 2] have ge: "1 \<le> py_round (rnd (fadd hi c / fadd lo c)) 2"
    by (simp only: py_round_one)
  from dpos m1 have hpos: "0 \<le> fadd hi c" by simp
  from hpos m2 have opos: "0 \<le> fadd 1 c" by simp
  have "fadd hi c / fadd lo c \<le> fadd 1 c / fadd 0 c"
    using opos m2 zpos m3 by (rule frac_le)
  then have "rnd (fadd hi c / fadd lo c) \<le> rnd (fadd 1 c / fadd 0 c)" by (rule rnd_mono)
  from py_round_mono[OF this, of 2] have le: "py_round (rnd (fadd hi c / fadd lo c)) 2 \<le> 21"
    by (simp only: c_def extreme_ratio)
  from eq ge le show ?thesis by blast
qed

lemma parse_black: "hex_to_rgb ''#000000'' = Inr (0, 0, 0)"
  by code_simp

lemma parse_white: "hex_to_rgb ''#ffffff'' = Inr (255, 255, 255)"
  by code_simp

lemma linearize_zero: "linearize pw 0 = Inr 0"
  using literal_facts(1) by (simp add: linearize_eq fdivc_def)

lemma linearize_full:
  assumes "pow_faithful pw"
  shows "linearize pw 255 = Inr 1"
proof -
  have f0: "flit (1055 / 1000) \<noteq> 0" using literal_facts(5) by simp
  have "\<not> (1::rat) \<le> flit (3928 / 100000)" using literal_facts(2) by simp
  then have "linearize pw 255
      = Inr (pw (rnd (rnd (1 + flit (55 / 1000)) / flit (1055 / 1000))) (flit (24 / 10)))"
    by (simp add: linearize_eq fdivc_def fadd_def)
  also have "rnd (rnd (1 + flit (55 / 1000)) / flit (1055 / 1000)) = 1"
    using f0 by (simp only: one_plus_literal) simp
  finally show ?thesis using assms by (simp add: pow_faithful_def)
qed

lemma wcag_black_white:
  assumes "pow_faithful pw"
  shows "wcag_contrast_ratio pw ''#000000'' ''#ffffff'' = Inr 21"
proof -
  have b: "relative_luminance pw ''#000000'' = Inr 0"
    using relative_luminance_eq[OF parse_black linearize_zero linearize_zero linearize_zero, of pw]
    by (simp add: fmul_def fadd_def)
  note f = linearize_full[OF assms]
  have w: "relative_luminance pw ''#ffffff'' = Inr 1"
    using relative_luminance_eq[OF parse_white f f f] by (simp only: white_luminance)
  have "- (1 / 32) \<le> (0::rat)" "- (1 / 32) \<le> (1::rat)" by simp_all
  from wcag_contrast_ratio_eq[OF b w this] show ?thesis
    by (simp only: max_def min_def zero_le_one if_True extreme_ratio)
qed

section \<open>The audit\<close>

lemma foregrounds_subset: "set (foregrounds p) \<subseteq> set (p_colors p)"
  by (auto simp: foregrounds_def Let_def dest: in_set_takeD)

lemma backgrounds_subset: "set (backgrounds p) \<subseteq> set (p_colors p)"
  by (auto simp: backgrounds_def Let_def dest: in_set_dropD)

lemma foregrounds_eq:
  "foregrounds p =
     (if filter (\<lambda>s. sw_role s \<in> {''text'', ''primary'', ''secondary'', ''accent''}) (p_colors p) = []
      then take 2 (p_colors p)
      else filter (\<lambda>s. sw_role s \<in> {''text'', ''primary'', ''secondary'', ''accent''}) (p_colors p))"
  by (simp only: foregrounds_def Let_def text_roles_def if_not_P if_P split: if_splits) auto

lemma backgrounds_eq:
  "backgrounds p =
     (if filter (\<lambda>s. sw_role s \<in> {''background'', ''surface'', ''muted''}) (p_colors p) = []
      then drop 2 (p_colors p)
      else filter (\<lambda>s. sw_role s \<in> {''background'', ''surface'', ''muted''}) (p_colors p))"
  by (simp only: backgrounds_def Let_def bg_roles_def if_not_P if_P split: if_splits) auto

lemma make_check_Inr:
  assumes "make_check pw (fg, bg) = Inr ck"
  shows "fg_name ck = sw_name fg \<and> fg_hex ck = sw_hex fg \<and> bg_name ck = sw_name bg
    \<and> bg_hex ck = sw_hex bg
    \<and> wcag_contrast_ratio pw (sw_hex fg) (sw_hex bg) = Inr (ck_ratio ck)
    \<and> ck_grade ck = wcag_grade (ck_ratio ck)
    \<and> aa_normal ck = (45 / 10 \<le> ck_ratio ck) \<and> aa_large ck = (3 \<le> ck_ratio ck)
    \<and> aaa_normal ck = (7 \<le> ck_ratio ck)"
  using assms by (auto simp: make_check_def ebind_Inr_iff)

lemma make_check_total:
  assumes "hex_to_rgb (sw_hex fg) = Inr t" "hex_to_rgb (sw_hex bg) = Inr u" "pow_nonneg pw"
  shows "\<exists>ck. make_check pw (fg, bg) = Inr ck"
  using wcag_contrast_ratio_total[OF assms] by (auto simp: make_check_def)

lemma summary_of_checks:
  "ebind (int_truediv (int passed) (max 1 (int n))) f
     = f (rnd (of_int (int passed) / of_int (max 1 (int n))))"
proof -
  have "max 1 (int n) \<noteq> 0" by linarith
  then show ?thesis by (simp add: int_truediv_def)
qed

lemma a11y_check_eq:
  assumes "map_err (make_check pw) (List.product (foregrounds p) (backgrounds p)) = Inr cs"
  shows "a11y_check pw p =
     Inr \<lparr>palette_id = p_id p, palette_name = p_name p, checks = cs,
          summary = \<lparr>total = length cs, pass_aa = length (filter aa_normal cs),
                      fail_aa = int (length cs) - int (length (filter aa_normal cs)),
                      pass_rate = py_round (fmul (rnd (of_int (int (length (filter aa_normal cs)))
                         / of_int (max 1 (int (length cs))))) 100) 1\<rparr>\<rparr>"
  using assms by (simp add: a11y_check_def Let_def summary_of_checks)

lemma a11y_check_Inr:
  assumes "a11y_check pw p = Inr rep"
  shows "map_err (make_check pw) (List.product (foregrounds p) (backgrounds p)) = Inr (checks rep)"
proof (cases "map_err (make_check pw) (List.product (foregrounds p) (backgrounds p))")
  case (Inl e)
  with assms show ?thesis by (simp add: a11y_check_def)
next
  case (Inr cs)
  from a11y_check_eq[OF this] assms Inr show ?thesis by auto
qed

lemma a11y_check_empty:
  assumes "List.product (foregrounds p) (backgrounds p) = []"
  shows "a11y_check pw p =
     Inr \<lparr>palette_id = p_id p, palette_name = p_name p, checks = [],
          summary = \<lparr>total = 0, pass_aa = 0, fail_aa = 0, pass_rate = 0\<rparr>\<rparr>"
proof -
  from assms have "map_err (make_check pw) (List.product (foregrounds p) (backgrounds p)) = Inr []"
    by simp
  from a11y_check_eq[OF this] show ?thesis
    by (simp add: fmul_def py_round_zero)
qed

lemma a11y_check_total:
  assumes "\<forall>sw\<in>set (p_colors p). \<exists>t. hex_to_rgb (sw_hex sw) = Inr t" "pow_nonneg pw"
  shows "\<exists>rep. a11y_check pw p = Inr rep
    \<and> map_err (make_check pw) (List.product (foregrounds p) (backgrounds p)) = Inr (checks rep)"
proof -
  have "\<exists>ck. make_check pw x = Inr ck" if "x \<in> set (List.product (foregrounds p) (backgrounds p))" for x
  proof -
    obtain fg bg where x: "x = (fg, bg)" by (cases x)
    with that foregrounds_subset[of p] backgrounds_subset[of p]
    have "fg \<in> set (p_colors p)" "bg \<in> set (p_colors p)" by auto
    with assms(1) obtain t u where "hex_to_rgb (sw_hex fg) = Inr t" "hex_to_rgb (sw_hex bg) = Inr u"
      by blast
    from make_check_total[OF this assms(2)] x show ?thesis by simp
  qed
  from map_err_total[of "List.product (foregrounds p) (backgrounds p)" "make_check pw", OF this]
  obtain cs where cs: "map_err (make_check pw) (List.product (foregrounds p) (backgrounds p)) = Inr cs"
    by blast
  from a11y_check_eq[OF cs] cs show ?thesis by simp
qed

lemma product_Nil_right: "List.product xs [] = []"
  by (induction xs) simp_all

lemma short_palette_no_pairs:
  assumes "length (p_colors p) \<le> 2"
    and "filter (\<lambda>s. sw_role s \<in> {''background'', ''surface'', ''muted''}) (p_colors p) = []"
  shows "List.product (foregrounds p) (backgrounds p) = []"
proof -
  from assms have "backgrounds p = []" by (simp add: backgrounds_eq)
  then show ?thesis by (simp add: product_Nil_right)
qed

section \<open>The model on inputs of the repository's tests\<close>

lemma test_hex_to_rgb:
  "hex_to_rgb ''#3b82f6'' = Inr (59, 130, 246)" "hex_to_rgb ''#fff'' = Inr (255, 255, 255)"
  "hex_to_rgb ''000000'' = Inr (0, 0, 0)"
  by code_simp+

lemma test_rgb_to_hex:
  "rgb_to_hex 59 130 246 = ''#3b82f6''" "rgb_to_hex (- 10) 300 0 = ''#00ff00''"
  by code_simp+

lemma test_wcag_grades:
  "wcag_grade 21 = ''AAA''" "wcag_grade (45 / 10) = ''AA''" "wcag_grade 3 = ''AA-Large''"
  "wcag_grade (25 / 10) = ''Fail''"
  by (simp_all add: wcag_grade_def)

lemma test_generate_invalid:
  "generate ''zzzzzz'' ''triadic'' '''' ''id'' ''now'' = Inl InvalidLiteral"
  "generate ''#3b82f6'' ''rainbow'' '''' ''id'' ''now'' = Inl UnknownHarmonyType"
  by code_simp+

section \<open>Claims about parsing and formatting\<close>

text \<open>
  Claim C2, as the code has it.  \<open>hex_to_rgb\<close> has no length check of its own: it fails, with
  the \<open>ValueError\<close> of \<open>int(_, 16)\<close>, when the cleaned string (leading \<open>#\<close> stripped) has
  fewer than three characters or exactly four, when it has three characters one of which is
  not a hex digit, and when it has five or more characters and one of the first six is
  neither a hex digit nor a sign nor white space.  Cleaned strings of length 5, or longer
  than 6, are not rejected for their length.
\<close>

theorem hex_to_rgb_rejects:
  assumes "length (lstrip_hash s) < 3 \<or> length (lstrip_hash s) = 4
    \<or> (length (lstrip_hash s) = 3 \<and> \<not> list_all is_hex (lstrip_hash s))
    \<or> (5 \<le> length (lstrip_hash s)
        \<and> (\<exists>c\<in>set (take 6 (lstrip_hash s)). \<not> is_hex c \<and> \<not> is_space c \<and> \<not> is_sign c))"
  shows "hex_to_rgb s = Inl InvalidLiteral"
proof (cases "hex_to_rgb s")
  case (Inl e)
  then show ?thesis by (simp add: hex_to_rgb_error)
next
  case (Inr t)
  obtain r g b where t: "t = (r, g, b)" by (cases t)
  with Inr have ok: "hex_to_rgb s = Inr (r, g, b)" by simp
  let ?h = "lstrip_hash s"
  show ?thesis
  proof (cases "length ?h = 3")
    case True
    with hex_to_rgb_three_accepts[OF ok] assms show ?thesis by simp
  next
    case False
    then have e: "expand3 ?h = ?h" by (simp add: expand3_def)
    from hex_to_rgb_accepts[OF ok] e
    have "5 \<le> length ?h" "\<forall>c\<in>set (take 6 ?h). is_hex c \<or> is_space c \<or> is_sign c"
      by simp_all
    with assms False show ?thesis by auto
  qed
qed

theorem hex_to_rgb_rejects_witness:
  "length (lstrip_hash ''#12'') < 3 \<and> hex_to_rgb ''#12'' = Inl InvalidLiteral
   \<and> length (lstrip_hash ''#1234'') = 4 \<and> hex_to_rgb ''#1234'' = Inl InvalidLiteral
   \<and> length (lstrip_hash ''#1g3'') = 3 \<and> \<not> list_all is_hex (lstrip_hash ''#1g3'')
   \<and> hex_to_rgb ''#1g3'' = Inl InvalidLiteral
   \<and> 5 \<le> length (lstrip_hash ''zzzzzz'') \<and> hex_to_rgb ''zzzzzz'' = Inl InvalidLiteral"
  using hex_to_rgb_rejects[of "''#12''"] hex_to_rgb_rejects[of "''#1234''"]
    hex_to_rgb_rejects[of "''#1g3''"] hex_to_rgb_rejects[of "''zzzzzz''"]
  by (simp add: lstrip_hash_def is_hex_def hex_val_def is_space_def is_sign_def)

theorem hex_to_rgb_length_counterexample:
  "\<not> valid_hex ''12345'' \<and> hex_to_rgb ''12345'' = Inr (18, 52, 5)
   \<and> \<not> valid_hex ''1234567'' \<and> hex_to_rgb ''1234567'' = Inr (18, 52, 86)
   \<and> \<not> valid_hex ''+1-f 3'' \<and> hex_to_rgb ''+1-f 3'' = Inr (1, - 15, 3)"
  by (simp add: valid_hex_def hex_to_rgb_def lstrip_hash_def expand3_def slice_def py_int16_def
      is_space_def is_sign_def skip_prefix_def scan_digits_def digit_or_us_def is_hex_def
      hex_val_def digits_value_def)

text \<open>
  Claim C8, as the code has it.  For every valid hex string \<open>s\<close> (three or six hex digits
  of either case, leading \<open>#\<close> optional), formatting the channels parsed from \<open>s\<close> yields
  \<open>#\<close> followed by the lower-cased six-digit form of its digits, each nibble of a 3-digit
  input doubled.  The round trip returns \<open>s\<close> itself exactly when \<open>s\<close> already is \<open>#\<close>
  followed by six lower-case hex digits.
\<close>

theorem parse_then_format_normalises:
  assumes "valid_hex s"
  shows "parse_then_format s = Inr (CHR ''#'' # map lower_hex (expand3 (lstrip_hash s)))
    \<and> (canonical_hex s \<longrightarrow> parse_then_format s = Inr s)"
proof -
  from valid_hex_parse[OF assms] have 1: "parse_then_format s = Inr (normal_form s)"
    by (auto simp: parse_then_format_def)
  with canonical_hex_normal_form(2)[of s] show ?thesis
    by (auto simp: normal_form_def)
qed

theorem parse_then_format_normalises_witness:
  "valid_hex ''#3b82f6'' \<and> canonical_hex ''#3b82f6'' \<and> parse_then_format ''#3b82f6'' = Inr ''#3b82f6''
   \<and> valid_hex ''F0a'' \<and> parse_then_format ''F0a'' = Inr ''#ff00aa''"
  using parse_then_format_normalises[of "''#3b82f6''"] parse_then_format_normalises[of "''F0a''"]
  by (simp add: valid_hex_def canonical_hex_def lstrip_hash_def is_hex_def hex_val_def
      is_lower_hex_def expand3_def lower_hex_def)

theorem parse_then_format_uppercase_counterexample:
  "valid_hex ''#FF0000'' \<and> parse_then_format ''#FF0000'' = Inr ''#ff0000''
   \<and> parse_then_format ''#FF0000'' \<noteq> Inr ''#FF0000''
   \<and> valid_hex ''3b82f6'' \<and> parse_then_format ''3b82f6'' \<noteq> Inr ''3b82f6''"
  by (simp add: valid_hex_def parse_then_format_def hex_to_rgb_def lstrip_hash_def expand3_def
      slice_def py_int16_def is_space_def is_sign_def skip_prefix_def scan_digits_def
      digit_or_us_def is_hex_def hex_val_def digits_value_def rgb_to_hex_def clamp255_def
      fmt_02x_def hexdigit_def to_hex.simps)

section \<open>Claims about \<open>generate\<close>\<close>

text \<open>
  Claim C1.  For every valid base colour and every harmony kind of the table other than
  \<open>monochromatic\<close>, \<open>generate\<close> returns a palette whose swatches are the hue rotations of
  the normalised base colour by the kind's angles, in order, with the roles taken
  positionally from \<open>ROLES\<close>, followed by exactly two more swatches: the base colour with
  lightness \<open>+0.38\<close> and role \<open>background\<close>, and the base colour with lightness \<open>-0.38\<close> and
  role \<open>text\<close>, each new lightness clamped to the interval from 0 to 1.  For
  \<open>complementary\<close> this gives four swatches with roles primary, secondary, background, text.
\<close>

theorem generate_non_monochromatic:
  assumes "valid_hex base" and "map_of HARMONY_ANGLES harmony = Some angles"
    and "harmony \<noteq> ''monochromatic''"
  shows "\<exists>p rot light dark r g b h l s lt dk.
      generate base harmony name uuid now = Inr p
    \<and> p_colors p = rot @ [light, dark]
    \<and> length rot = length angles
    \<and> map sw_role rot = take (length angles) ROLES
    \<and> map (\<lambda>sw. Inr (sw_hex sw)) rot
        = map (\<lambda>a. rotate_hue (p_base_color p) (float_of_int a)) angles
    \<and> hex_to_rgb (p_base_color p) = Inr (r, g, b) \<and> channels_hls r g b = Inr (h, l, s)
    \<and> lt = max 0 (min 1 (fadd l (flit (38 / 100)))) \<and> 0 \<le> lt \<and> lt \<le> 1
    \<and> dk = max 0 (min 1 (fadd l (- flit (38 / 100)))) \<and> 0 \<le> dk \<and> dk \<le> 1
    \<and> sw_role light = ''background'' \<and> sw_hex light = hls_hex (fmul h 360) lt s
    \<and> sw_role dark = ''text'' \<and> sw_hex dark = hls_hex (fmul h 360) dk s
    \<and> (harmony = ''complementary'' \<longrightarrow>
          map sw_role (p_colors p) = [''primary'', ''secondary'', ''background'', ''text''])"
proof -
  let ?full = "CHR ''#'' # expand3 (lstrip_hash base)"
  from generate_total[OF assms(1,2), of name uuid now] assms(3) obtain p r g b h l s where
    gen: "generate base harmony name uuid now = Inr p"
    and par: "hex_to_rgb ?full = Inr (r, g, b)" "channels_hls r g b = Inr (h, l, s)"
    and hs: "harmony_swatches ?full name angles = Inr (p_colors p)"
    by auto
  from harmony_swatches_total[OF full_hex_valid[OF assms(1)] par, of name angles] hs
  obtain rot light dark where
    cols: "p_colors p = rot @ [light, dark]"
    and rot: "list_all2 (\<lambda>(i, a) sw. rotate_hue ?full (float_of_int a) = Inr (sw_hex sw)
            \<and> sw_role sw = role_at i \<and> sw_name sw = swatch_name name i) (enumerate 0 angles) rot"
    and light: "sw_hex light = hls_hex (fmul h 360) (max 0 (min 1 (fadd l (flit (38 / 100))))) s"
      "sw_role light = ''background''"
    and dark: "sw_hex dark = hls_hex (fmul h 360) (max 0 (min 1 (fadd l (- flit (38 / 100))))) s"
      "sw_role dark = ''text''"
    by auto
  note m = enumerate_all2_maps[OF rot]
  have bc: "p_base_color p = ?full" by (rule generate_Inr_D(2)[OF gen])
  have roles: "map sw_role rot = take (length angles) ROLES"
    using m(2) roles_prefix[OF angles_short[OF assms(2)]] by simp
  have hexes: "map (\<lambda>sw. Inr (sw_hex sw)) rot
      = map (\<lambda>a. rotate_hue (p_base_color p) (float_of_int a)) angles"
    using m(3) by (simp add: bc)
  have compl: "map sw_role (p_colors p) = [''primary'', ''secondary'', ''background'', ''text'']"
    if "harmony = ''complementary''"
  proof -
    from that assms(2) have "angles = [0, 180]" by (simp add: HARMONY_ANGLES_def)
    with roles cols light(2) dark(2) show ?thesis by (simp add: ROLES_def)
  qed
  have par': "hex_to_rgb (p_base_color p) = Inr (r, g, b)" using par(1) by (simp only: bc)
  define lt where "lt = max 0 (min 1 (fadd l (flit (38 / 100))))"
  define dk where "dk = max 0 (min 1 (fadd l (- flit (38 / 100))))"
  have bounds: "0 \<le> lt" "lt \<le> 1" "0 \<le> dk" "dk \<le> 1"
    by (simp_all add: lt_def dk_def)
  have l': "sw_hex light = hls_hex (fmul h 360) lt s" using light(1) by (simp only: lt_def)
  have d': "sw_hex dark = hls_hex (fmul h 360) dk s" using dark(1) by (simp only: dk_def)
  show ?thesis
    apply (rule exI[of _ p], rule exI[of _ rot], rule exI[of _ light], rule exI[of _ dark])
    apply (rule exI[of _ r], rule exI[of _ g], rule exI[of _ b])
    apply (rule exI[of _ h], rule exI[of _ l], rule exI[of _ s])
    apply (rule exI[of _ lt], rule exI[of _ dk])
    by (intro conjI impI gen cols m(1) roles hexes par' par(2) lt_def dk_def bounds
        light(2) dark(2) l' d' compl)
qed

theorem generate_non_monochromatic_witness:
  "valid_hex ''#3b82f6'' \<and> map_of HARMONY_ANGLES ''complementary'' = Some [0, 180]
   \<and> (\<exists>p. generate ''#3b82f6'' ''complementary'' ''Ocean'' ''id-1'' ''2024-01-01T00:00:00'' = Inr p
        \<and> length (p_colors p) = 4
        \<and> map sw_role (p_colors p) = [''primary'', ''secondary'', ''background'', ''text''])"
proof -
  have v: "valid_hex ''#3b82f6''"
    by (simp add: valid_hex_def lstrip_hash_def is_hex_def hex_val_def)
  have a: "map_of HARMONY_ANGLES ''complementary'' = Some [0, 180]"
    by (simp add: HARMONY_ANGLES_def)
  have n: "''complementary'' \<noteq> ''monochromatic''" by simp
  from generate_non_monochromatic[OF v a n, of "''Ocean''" "''id-1''" "''2024-01-01T00:00:00''"]
  obtain p where g: "generate ''#3b82f6'' ''complementary'' ''Ocean'' ''id-1'' ''2024-01-01T00:00:00'' = Inr p"
    and r: "map sw_role (p_colors p) = [''primary'', ''secondary'', ''background'', ''text'']"
    by auto
  from r have len: "length (p_colors p) = 4"
    using length_map[of sw_role "p_colors p"] by simp
  show ?thesis by (intro conjI exI[of _ p] v a g len r)
qed

text \<open>
  Claim C4, as the code has it.  Whenever \<open>generate\<close> returns a palette, the hex of every
  swatch is \<open>#\<close> followed by six lower-case hex digits.  The stored base colour is \<open>#\<close>
  followed by the six-character expansion of the input's digits in the case they were
  given in: it is in lower-case form exactly when the input's digits are.
\<close>

theorem generate_hex_forms:
  assumes "generate base harmony name uuid now = Inr p"
  shows "list_all (\<lambda>sw. canonical_hex (sw_hex sw)) (p_colors p)
    \<and> p_base_color p = CHR ''#'' # expand3 (lstrip_hash base)
    \<and> length (p_base_color p) = 7
    \<and> canonical_hex (p_base_color p) = list_all is_lower_hex (lstrip_hash base)"
  using generate_swatches_canonical[OF assms] generate_Inr_D(1,2)[OF assms]
    canonical_full_iff[OF generate_Inr_D(1)[OF assms]]
  by simp

theorem generate_hex_forms_witness:
  "\<exists>p. generate ''#F0a'' ''triadic'' ''Rose'' ''id-2'' ''2024-01-01T00:00:00'' = Inr p
     \<and> list_all (\<lambda>sw. canonical_hex (sw_hex sw)) (p_colors p)
     \<and> p_base_color p = ''#FF00aa''"
proof -
  have v: "valid_hex ''#F0a''"
    by (simp add: valid_hex_def lstrip_hash_def is_hex_def hex_val_def)
  have a: "map_of HARMONY_ANGLES ''triadic'' = Some [0, 120, 240]"
    by (simp add: HARMONY_ANGLES_def)
  from generate_total[OF v a, of "''Rose''" "''id-2''" "''2024-01-01T00:00:00''"] obtain p where
    g: "generate ''#F0a'' ''triadic'' ''Rose'' ''id-2'' ''2024-01-01T00:00:00'' = Inr p" by blast
  from generate_hex_forms[OF g] have "list_all (\<lambda>sw. canonical_hex (sw_hex sw)) (p_colors p)"
    and "p_base_color p = ''#FF00aa''"
    by (simp_all add: lstrip_hash_def expand3_def)
  then show ?thesis by (intro exI[of _ p] conjI g)
qed

theorem generate_base_color_counterexample:
  "map_sum id p_base_color
      (generate ''#FF0000'' ''complementary'' ''Ocean'' ''id-3'' ''2024-01-01T00:00:00'')
     = Inr ''#FF0000''
   \<and> \<not> canonical_hex ''#FF0000''"
proof -
  have v: "valid_hex ''#FF0000''"
    by (simp add: valid_hex_def lstrip_hash_def is_hex_def hex_val_def)
  have a: "map_of HARMONY_ANGLES ''complementary'' = Some [0, 180]"
    by (simp add: HARMONY_ANGLES_def)
  from generate_total[OF v a, of "''Ocean''" "''id-3''" "''2024-01-01T00:00:00''"] obtain p where
    g: "generate ''#FF0000'' ''complementary'' ''Ocean'' ''id-3'' ''2024-01-01T00:00:00'' = Inr p"
    by blast
  from generate_Inr_D(2)[OF g] have "p_base_color p = ''#FF0000''"
    by (simp add: lstrip_hash_def expand3_def)
  with g show ?thesis by (simp add: canonical_hex_def is_lower_hex_def)
qed

text \<open>
  Claim C9.  \<open>generate\<close> checks the harmony kind after the length of the cleaned string and
  before its digits are parsed.  The six characters of the claim are those of the cleaned
  string, the base string with its leading \<open>#\<close> stripped, which is what the length check
  measures: a base string whose cleaned form has neither three nor six characters (such as
  \<open>#zzzzz\<close>, six characters with the \<open>#\<close>) gets the invalid-hex-colour error of the length
  check, whatever the harmony kind.  For every base string whose cleaned form has six
  characters among which there is one that is not a hex digit: with a harmony kind outside
  the table the result is the unknown-harmony error; with a kind of the table neither the
  invalid-hex-colour error nor the unknown-harmony error is raised, every error of
  \<open>hex_to_rgb\<close> on \<open>#\<close> followed by the cleaned string is the result of \<open>generate\<close>, and
  \<open>generate\<close> raises the \<open>ValueError\<close> of \<open>int(_, 16)\<close> only when that call of \<open>hex_to_rgb\<close>
  does: the digits are rejected inside the RGB parse and nowhere else.
\<close>

theorem generate_harmony_before_digits:
  "(length (lstrip_hash base) \<noteq> 3 \<and> length (lstrip_hash base) \<noteq> 6 \<longrightarrow>
        generate base harmony name uuid now = Inl InvalidHexColor)
   \<and> (length (lstrip_hash base) = 6 \<and> (\<exists>c\<in>set (lstrip_hash base). \<not> is_hex c) \<longrightarrow>
        (map_of HARMONY_ANGLES harmony = None \<longrightarrow>
            generate base harmony name uuid now = Inl UnknownHarmonyType)
      \<and> (map_of HARMONY_ANGLES harmony \<noteq> None \<longrightarrow>
            generate base harmony name uuid now \<noteq> Inl InvalidHexColor
          \<and> generate base harmony name uuid now \<noteq> Inl UnknownHarmonyType
          \<and> (\<forall>e. hex_to_rgb (CHR ''#'' # lstrip_hash base) = Inl e \<longrightarrow>
                generate base harmony name uuid now = Inl e)
          \<and> (generate base harmony name uuid now = Inl InvalidLiteral \<longrightarrow>
                hex_to_rgb (CHR ''#'' # lstrip_hash base) = Inl InvalidLiteral)))"
proof -
  have 0: "generate base harmony name uuid now = Inl InvalidHexColor"
    if "length (lstrip_hash base) \<noteq> 3 \<and> length (lstrip_hash base) \<noteq> 6"
    using that by (intro generate_bad_length) simp_all
  have rest: "(map_of HARMONY_ANGLES harmony = None \<longrightarrow>
            generate base harmony name uuid now = Inl UnknownHarmonyType)
      \<and> (map_of HARMONY_ANGLES harmony \<noteq> None \<longrightarrow>
            generate base harmony name uuid now \<noteq> Inl InvalidHexColor
          \<and> generate base harmony name uuid now \<noteq> Inl UnknownHarmonyType
          \<and> (\<forall>e. hex_to_rgb (CHR ''#'' # lstrip_hash base) = Inl e \<longrightarrow>
                generate base harmony name uuid now = Inl e)
          \<and> (generate base harmony name uuid now = Inl InvalidLiteral \<longrightarrow>
                hex_to_rgb (CHR ''#'' # lstrip_hash base) = Inl InvalidLiteral))"
    if six: "length (lstrip_hash base) = 6"
  proof -
    from six have ex: "expand3 (lstrip_hash base) = lstrip_hash base" by (simp add: expand3_def)
    from six have len: "length (expand3 (lstrip_hash base)) = 6" by (simp add: expand3_def)
    have full: "hex_to_rgb (CHR ''#'' # lstrip_hash base) = hex_to_rgb base"
      using full_hex_parse[OF len] by (simp only: ex)
    have 1: "generate base harmony name uuid now = Inl UnknownHarmonyType"
      if "map_of HARMONY_ANGLES harmony = None"
      using len that by (rule generate_unknown_harmony)
    have 2: "generate base harmony name uuid now \<noteq> Inl InvalidHexColor"
      "generate base harmony name uuid now \<noteq> Inl UnknownHarmonyType"
      if "map_of HARMONY_ANGLES harmony = Some angles" for angles
      using generate_later_error[OF _ len that, of name uuid now] by auto
    have 3: "generate base harmony name uuid now = Inl e"
      if "map_of HARMONY_ANGLES harmony = Some angles"
        and "hex_to_rgb (CHR ''#'' # lstrip_hash base) = Inl e" for angles e
    proof -
      from that(2) have b: "hex_to_rgb base = Inl e" by (simp only: full)
      from hex_to_rgb_error[OF b] generate_bad_digits[OF len that(1) b] show ?thesis by simp
    qed
    have 4: "hex_to_rgb (CHR ''#'' # lstrip_hash base) = Inl InvalidLiteral"
      if "map_of HARMONY_ANGLES harmony = Some angles"
        and g: "generate base harmony name uuid now = Inl InvalidLiteral" for angles
    proof (cases "hex_to_rgb (CHR ''#'' # lstrip_hash base)")
      case (Inl e)
      with hex_to_rgb_error[OF Inl] show ?thesis by simp
    next
      case (Inr x)
      then have "hex_to_rgb (CHR ''#'' # expand3 (lstrip_hash base)) = Inr x" by (simp only: ex)
      from generate_parsed[OF len that(1) this] g show ?thesis by simp
    qed
    have A: "map_of HARMONY_ANGLES harmony = None \<longrightarrow>
            generate base harmony name uuid now = Inl UnknownHarmonyType"
    proof
      assume "map_of HARMONY_ANGLES harmony = None"
      then show "generate base harmony name uuid now = Inl UnknownHarmonyType" by (rule 1)
    qed
    have B: "map_of HARMONY_ANGLES harmony \<noteq> None \<longrightarrow>
            generate base harmony name uuid now \<noteq> Inl InvalidHexColor
          \<and> generate base harmony name uuid now \<noteq> Inl UnknownHarmonyType
          \<and> (\<forall>e. hex_to_rgb (CHR ''#'' # lstrip_hash base) = Inl e \<longrightarrow>
                generate base harmony name uuid now = Inl e)
          \<and> (generate base harmony name uuid now = Inl InvalidLiteral \<longrightarrow>
                hex_to_rgb (CHR ''#'' # lstrip_hash base) = Inl InvalidLiteral)"
    proof
      assume "map_of HARMONY_ANGLES harmony \<noteq> None"
      then obtain angles where S: "map_of HARMONY_ANGLES harmony = Some angles"
        by (cases "map_of HARMONY_ANGLES harmony") simp_all
      have c3: "\<forall>e. hex_to_rgb (CHR ''#'' # lstrip_hash base) = Inl e \<longrightarrow>
                generate base harmony name uuid now = Inl e"
      proof (intro allI impI)
        fix e
        assume "hex_to_rgb (CHR ''#'' # lstrip_hash base) = Inl e"
        with S show "generate base harmony name uuid now = Inl e" by (rule 3)
      qed
      have c4: "generate base harmony name uuid now = Inl InvalidLiteral \<longrightarrow>
                hex_to_rgb (CHR ''#'' # lstrip_hash base) = Inl InvalidLiteral"
      proof
        assume "generate base harmony name uuid now = Inl InvalidLiteral"
        with S show "hex_to_rgb (CHR ''#'' # lstrip_hash base) = Inl InvalidLiteral" by (rule 4)
      qed
      show "generate base harmony name uuid now \<noteq> Inl InvalidHexColor
          \<and> generate base harmony name uuid now \<noteq> Inl UnknownHarmonyType
          \<and> (\<forall>e. hex_to_rgb (CHR ''#'' # lstrip_hash base) = Inl e \<longrightarrow>
                generate base harmony name uuid now = Inl e)
          \<and> (generate base harmony name uuid now = Inl InvalidLiteral \<longrightarrow>
                hex_to_rgb (CHR ''#'' # lstrip_hash base) = Inl InvalidLiteral)"
        by (intro conjI 2[OF S] c3 c4)
    qed
    from A B show ?thesis by (rule conjI)
  qed
  show ?thesis
  proof (rule conjI; rule impI)
    assume "length (lstrip_hash base) \<noteq> 3 \<and> length (lstrip_hash base) \<noteq> 6"
    then show "generate base harmony name uuid now = Inl InvalidHexColor" by (rule 0)
  next
    assume "length (lstrip_hash base) = 6 \<and> (\<exists>c\<in>set (lstrip_hash base). \<not> is_hex c)"
    then have "length (lstrip_hash base) = 6" by (rule conjunct1)
    then show "(map_of HARMONY_ANGLES harmony = None \<longrightarrow>
            generate base harmony name uuid now = Inl UnknownHarmonyType)
      \<and> (map_of HARMONY_ANGLES harmony \<noteq> None \<longrightarrow>
            generate base harmony name uuid now \<noteq> Inl InvalidHexColor
          \<and> generate base harmony name uuid now \<noteq> Inl UnknownHarmonyType
          \<and> (\<forall>e. hex_to_rgb (CHR ''#'' # lstrip_hash base) = Inl e \<longrightarrow>
                generate base harmony name uuid now = Inl e)
          \<and> (generate base harmony name uuid now = Inl InvalidLiteral \<longrightarrow>
                hex_to_rgb (CHR ''#'' # lstrip_hash base) = Inl InvalidLiteral))"
      by (rule rest)
  qed
qed

theorem generate_harmony_before_digits_witness:
  "length (lstrip_hash ''#zzzzz'') = 5
   \<and> generate ''#zzzzz'' ''rainbow'' '''' ''id-4'' ''2024-01-01T00:00:00'' = Inl InvalidHexColor
   \<and> length (lstrip_hash ''zzzzzz'') = 6 \<and> \<not> is_hex CHR ''z''
   \<and> map_of HARMONY_ANGLES ''rainbow'' = None
   \<and> generate ''zzzzzz'' ''rainbow'' '''' ''id-4'' ''2024-01-01T00:00:00'' = Inl UnknownHarmonyType
   \<and> map_of HARMONY_ANGLES ''triadic'' \<noteq> None
   \<and> hex_to_rgb ''#zzzzzz'' = Inl InvalidLiteral
   \<and> generate ''zzzzzz'' ''triadic'' '''' ''id-4'' ''2024-01-01T00:00:00'' = Inl InvalidLiteral"
proof -
  have l5: "length (lstrip_hash ''#zzzzz'') = 5" and l6: "length (lstrip_hash ''zzzzzz'') = 6"
    and s6: "lstrip_hash ''zzzzzz'' = ''zzzzzz''"
    by (simp_all add: lstrip_hash_def)
  have z: "\<not> is_hex CHR ''z''" by (simp add: is_hex_def hex_val_def)
  have h: "map_of HARMONY_ANGLES ''rainbow'' = None" "map_of HARMONY_ANGLES ''triadic'' \<noteq> None"
    by (simp_all add: HARMONY_ANGLES_def)
  have p: "hex_to_rgb ''#zzzzzz'' = Inl InvalidLiteral" by code_simp
  have p': "hex_to_rgb (CHR ''#'' # lstrip_hash ''zzzzzz'') = Inl InvalidLiteral"
    by (simp only: s6 p)
  have n5: "length (lstrip_hash ''#zzzzz'') \<noteq> 3 \<and> length (lstrip_hash ''#zzzzz'') \<noteq> 6"
    by (simp only: l5) simp
  have nh: "length (lstrip_hash ''zzzzzz'') = 6 \<and> (\<exists>c\<in>set (lstrip_hash ''zzzzzz''). \<not> is_hex c)"
    using z by (simp add: s6)
  note short = generate_harmony_before_digits[of "''#zzzzz''" "''rainbow''" "''''" "''id-4''"
      "''2024-01-01T00:00:00''", THEN conjunct1, THEN mp, OF n5]
  note unknown = generate_harmony_before_digits[of "''zzzzzz''" "''rainbow''" "''''" "''id-4''"
      "''2024-01-01T00:00:00''", THEN conjunct2, THEN mp, OF nh, THEN conjunct1, THEN mp, OF h(1)]
  note known = generate_harmony_before_digits[of "''zzzzzz''" "''triadic''" "''''" "''id-4''"
      "''2024-01-01T00:00:00''", THEN conjunct2, THEN mp, OF nh, THEN conjunct2, THEN mp, OF h(2)]
  note later = known[THEN conjunct2, THEN conjunct2, THEN conjunct1, THEN spec, THEN mp, OF p']
  show ?thesis by (intro conjI l5 short l6 z h unknown p later)
qed
section \<open>Claims about colour operations\<close>




text \<open>
  Claim C7.  For all valid colours \<open>a\<close> and \<open>b\<close>: \<open>blend_colors a b 0.0\<close> is the hex of \<open>a\<close>
  (its normalised \<open>#rrggbb\<close> form, which is \<open>a\<close> itself when \<open>a\<close> is \<open>#\<close> followed by six
  lower-case digits) and \<open>blend_colors a b 1.0\<close> is the hex of \<open>b\<close>.  For every ratio the
  result is the one for the ratio clamped to the interval from 0 to 1, and each channel is
  the floor of the float \<open>c1 + (c2 - c1) * t\<close> computed from the two channel values and the
  clamped ratio \<open>t\<close>: the product \<open>float(c2 - c1) * t\<close> rounded, then the sum with
  \<open>float(c1)\<close> rounded.  That float is within \<open>1 / 2 ^ 44\<close> of the exact linear interpolation
  \<open>c1 + (c2 - c1) * t\<close>, and its floor lies between 0 and 255, so formatting does not
  change it.
\<close>

theorem blend_colors_interpolates:
  assumes "valid_hex a" and "valid_hex b"
  shows "blend_colors a b 0 = Inr (CHR ''#'' # map lower_hex (expand3 (lstrip_hash a)))
    \<and> blend_colors a b 1 = Inr (CHR ''#'' # map lower_hex (expand3 (lstrip_hash b)))
    \<and> (canonical_hex a \<longrightarrow> blend_colors a b 0 = Inr a)
    \<and> (canonical_hex b \<longrightarrow> blend_colors a b 1 = Inr b)
    \<and> blend_colors a b q = blend_colors a b (max 0 (min 1 q))
    \<and> (\<exists>r1 g1 b1 r2 g2 b2 t xr xg xb.
          hex_to_rgb a = Inr (r1, g1, b1) \<and> hex_to_rgb b = Inr (r2, g2, b2)
        \<and> t = max 0 (min 1 q) \<and> 0 \<le> t \<and> t \<le> 1
        \<and> xr = fadd (float_of_int r1) (fmul (float_of_int (r2 - r1)) t)
        \<and> xg = fadd (float_of_int g1) (fmul (float_of_int (g2 - g1)) t)
        \<and> xb = fadd (float_of_int b1) (fmul (float_of_int (b2 - b1)) t)
        \<and> \<bar>xr - (of_int r1 + of_int (r2 - r1) * t)\<bar> \<le> 1 / 2 ^ 44
        \<and> \<bar>xg - (of_int g1 + of_int (g2 - g1) * t)\<bar> \<le> 1 / 2 ^ 44
        \<and> \<bar>xb - (of_int b1 + of_int (b2 - b1) * t)\<bar> \<le> 1 / 2 ^ 44
        \<and> blend_colors a b q = Inr (rgb_to_hex \<lfloor>xr\<rfloor> \<lfloor>xg\<rfloor> \<lfloor>xb\<rfloor>)
        \<and> clamp255 \<lfloor>xr\<rfloor> = \<lfloor>xr\<rfloor> \<and> clamp255 \<lfloor>xg\<rfloor> = \<lfloor>xg\<rfloor> \<and> clamp255 \<lfloor>xb\<rfloor> = \<lfloor>xb\<rfloor>)"
proof -
  from valid_hex_parse[OF assms(1)] obtain r1 g1 b1 where
    a: "hex_to_rgb a = Inr (r1, g1, b1)" and ra: "0 \<le> r1" "r1 \<le> 255" "0 \<le> g1" "g1 \<le> 255"
      "0 \<le> b1" "b1 \<le> 255" and na: "rgb_to_hex r1 g1 b1 = normal_form a"
    by blast
  from valid_hex_parse[OF assms(2)] obtain r2 g2 b2 where
    b: "hex_to_rgb b = Inr (r2, g2, b2)" and rb: "0 \<le> r2" "r2 \<le> 255" "0 \<le> g2" "g2 \<le> 255"
      "0 \<le> b2" "b2 \<le> 255" and nb: "rgb_to_hex r2 g2 b2 = normal_form b"
    by blast
  note eq = blend_colors_eq[OF a b]
  from ra rb have ab: "\<bar>r1\<bar> \<le> 255" "\<bar>g1\<bar> \<le> 255" "\<bar>b1\<bar> \<le> 255"
    "\<bar>r2\<bar> \<le> 255" "\<bar>g2\<bar> \<le> 255" "\<bar>b2\<bar> \<le> 255" by simp_all
  have zero: "blend_colors a b 0 = Inr (normal_form a)"
    by (simp add: eq blend_channel_zero ab na)
  have one: "blend_colors a b 1 = Inr (normal_form b)"
    by (simp add: eq blend_channel_one ab nb)
  have clampq: "blend_colors a b q = blend_colors a b (max 0 (min 1 q))"
    by (simp add: eq)
  define t where "t = max 0 (min 1 q)"
  have t: "0 \<le> t" "t \<le> 1" by (simp_all add: t_def)
  define xr where "xr = fadd (float_of_int r1) (fmul (float_of_int (r2 - r1)) t)"
  define xg where "xg = fadd (float_of_int g1) (fmul (float_of_int (g2 - g1)) t)"
  define xb where "xb = fadd (float_of_int b1) (fmul (float_of_int (b2 - b1)) t)"
  have lx: "lerp r1 r2 t = xr" "lerp g1 g2 t = xg" "lerp b1 b2 t = xb"
    by (simp_all only: lerp_def xr_def xg_def xb_def)
  note cr = blend_channel_between[OF ra(1,2) rb(1,2) t, unfolded lx]
  note cg = blend_channel_between[OF ra(3,4) rb(3,4) t, unfolded lx]
  note cb = blend_channel_between[OF ra(5,6) rb(5,6) t, unfolded lx]
  have er: "\<bar>xr - (of_int r1 + of_int (r2 - r1) * t)\<bar> \<le> 1 / 2 ^ 44"
    unfolding xr_def by (rule lerp_error[OF ra(1,2) rb(1,2) t])
  have eg: "\<bar>xg - (of_int g1 + of_int (g2 - g1) * t)\<bar> \<le> 1 / 2 ^ 44"
    unfolding xg_def by (rule lerp_error[OF ra(3,4) rb(3,4) t])
  have eb: "\<bar>xb - (of_int b1 + of_int (b2 - b1) * t)\<bar> \<le> 1 / 2 ^ 44"
    unfolding xb_def by (rule lerp_error[OF ra(5,6) rb(5,6) t])
  have interp: "blend_colors a b q = Inr (rgb_to_hex \<lfloor>xr\<rfloor> \<lfloor>xg\<rfloor> \<lfloor>xb\<rfloor>)"
    unfolding eq t_def[symmetric] by (simp only: cr(1) cg(1) cb(1))
  have cl: "clamp255 \<lfloor>xr\<rfloor> = \<lfloor>xr\<rfloor>" "clamp255 \<lfloor>xg\<rfloor> = \<lfloor>xg\<rfloor>" "clamp255 \<lfloor>xb\<rfloor> = \<lfloor>xb\<rfloor>"
    using cr(1,4) cg(1,4) cb(1,4) by simp_all
  have ex: "\<exists>r1 g1 b1 r2 g2 b2 t xr xg xb.
          hex_to_rgb a = Inr (r1, g1, b1) \<and> hex_to_rgb b = Inr (r2, g2, b2)
        \<and> t = max 0 (min 1 q) \<and> 0 \<le> t \<and> t \<le> 1
        \<and> xr = fadd (float_of_int r1) (fmul (float_of_int (r2 - r1)) t)
        \<and> xg = fadd (float_of_int g1) (fmul (float_of_int (g2 - g1)) t)
        \<and> xb = fadd (float_of_int b1) (fmul (float_of_int (b2 - b1)) t)
        \<and> \<bar>xr - (of_int r1 + of_int (r2 - r1) * t)\<bar> \<le> 1 / 2 ^ 44
        \<and> \<bar>xg - (of_int g1 + of_int (g2 - g1) * t)\<bar> \<le> 1 / 2 ^ 44
        \<and> \<bar>xb - (of_int b1 + of_int (b2 - b1) * t)\<bar> \<le> 1 / 2 ^ 44
        \<and> blend_colors a b q = Inr (rgb_to_hex \<lfloor>xr\<rfloor> \<lfloor>xg\<rfloor> \<lfloor>xb\<rfloor>)
        \<and> clamp255 \<lfloor>xr\<rfloor> = \<lfloor>xr\<rfloor> \<and> clamp255 \<lfloor>xg\<rfloor> = \<lfloor>xg\<rfloor> \<and> clamp255 \<lfloor>xb\<rfloor> = \<lfloor>xb\<rfloor>"
    apply (rule exI[of _ r1], rule exI[of _ g1], rule exI[of _ b1])
    apply (rule exI[of _ r2], rule exI[of _ g2], rule exI[of _ b2], rule exI[of _ t])
    apply (rule exI[of _ xr], rule exI[of _ xg], rule exI[of _ xb])
    by (intro conjI a b t_def t xr_def xg_def xb_def er eg eb interp cl)
  have ca: "blend_colors a b 0 = Inr a" if "canonical_hex a"
    using zero canonical_hex_normal_form(2)[OF that] by simp
  have cb': "blend_colors a b 1 = Inr b" if "canonical_hex b"
    using one canonical_hex_normal_form(2)[OF that] by simp
  from zero one have z: "blend_colors a b 0 = Inr (CHR ''#'' # map lower_hex (expand3 (lstrip_hash a)))"
    and o: "blend_colors a b 1 = Inr (CHR ''#'' # map lower_hex (expand3 (lstrip_hash b)))"
    by (simp_all only: normal_form_def)
  show ?thesis by (intro conjI impI z o ca cb' clampq ex)
qed

theorem blend_colors_interpolates_witness:
  "valid_hex ''#ff0000'' \<and> valid_hex ''#0000ff'' \<and> canonical_hex ''#ff0000''
   \<and> canonical_hex ''#0000ff''
   \<and> blend_colors ''#ff0000'' ''#0000ff'' 0 = Inr ''#ff0000''
   \<and> blend_colors ''#ff0000'' ''#0000ff'' 1 = Inr ''#0000ff''
   \<and> blend_colors ''#ff0000'' ''#0000ff'' 7 = blend_colors ''#ff0000'' ''#0000ff'' 1
   \<and> valid_hex ''#000000'' \<and> valid_hex ''#ffffff''
   \<and> blend_colors ''#000000'' ''#ffffff'' (1 / 2) = Inr ''#7f7f7f''"
proof -
  have v: "valid_hex ''#ff0000''" "valid_hex ''#0000ff''"
    by (simp_all add: valid_hex_def lstrip_hash_def is_hex_def hex_val_def)
  have c: "canonical_hex ''#ff0000''" "canonical_hex ''#0000ff''"
    by (simp_all add: canonical_hex_def is_lower_hex_def)
  from blend_colors_interpolates[OF v, of 7] v c
  have ends: "blend_colors ''#ff0000'' ''#0000ff'' 0 = Inr ''#ff0000''"
    "blend_colors ''#ff0000'' ''#0000ff'' 1 = Inr ''#0000ff''"
    "blend_colors ''#ff0000'' ''#0000ff'' 7 = blend_colors ''#ff0000'' ''#0000ff'' 1"
    by (simp_all add: lstrip_hash_def expand3_def lower_hex_def)
  have w: "valid_hex ''#000000''" "valid_hex ''#ffffff''"
    by (simp_all add: valid_hex_def lstrip_hash_def is_hex_def hex_val_def)
  have p: "hex_to_rgb ''#000000'' = Inr (0, 0, 0)" "hex_to_rgb ''#ffffff'' = Inr (255, 255, 255)"
    by code_simp+
  have fl: "\<lfloor>x\<rfloor> = 127" if "\<bar>x - (of_int (0::int) + of_int (255 - 0) * (1 / 2))\<bar> \<le> 1 / 2 ^ 44"
    for x :: rat
  proof -
    have k: "(1::rat) / 2 ^ 44 \<le> 1 / 4" by simp
    from that have "\<bar>x - 255 / 2\<bar> \<le> 1 / 2 ^ 44" by simp
    from this k have "\<bar>x - 255 / 2\<bar> \<le> 1 / 4" by (rule order_trans)
    then have "x - 255 / 2 \<le> 1 / 4" "- (x - 255 / 2) \<le> 1 / 4" by (simp_all only: abs_le_iff)
    then have "of_int 127 \<le> x" "x < of_int 127 + 1" by simp_all
    then show ?thesis by (rule floor_unique)
  qed
  have hx: "rgb_to_hex 127 127 127 = ''#7f7f7f''" by code_simp
  have th: "max 0 (min 1 (1 / 2 :: rat)) = 1 / 2" by simp
  note inst = blend_colors_interpolates[OF w, of "1 / 2", unfolded p th]
  have mid: "blend_colors ''#000000'' ''#ffffff'' (1 / 2) = Inr ''#7f7f7f''"
    using inst
  proof (elim conjE exE)
    fix r1 g1 b1 r2 g2 b2 :: int and t xr xg xb :: rat
    assume h: "Inr (0, 0, 0) = (Inr (r1, g1, b1) :: error + int \<times> int \<times> int)"
      "Inr (255, 255, 255) = (Inr (r2, g2, b2) :: error + int \<times> int \<times> int)"
    assume t: "t = 1 / 2"
    assume e: "\<bar>xr - (of_int r1 + of_int (r2 - r1) * t)\<bar> \<le> 1 / 2 ^ 44"
      "\<bar>xg - (of_int g1 + of_int (g2 - g1) * t)\<bar> \<le> 1 / 2 ^ 44"
      "\<bar>xb - (of_int b1 + of_int (b2 - b1) * t)\<bar> \<le> 1 / 2 ^ 44"
    assume r: "blend_colors ''#000000'' ''#ffffff'' (1 / 2) = Inr (rgb_to_hex \<lfloor>xr\<rfloor> \<lfloor>xg\<rfloor> \<lfloor>xb\<rfloor>)"
    from h have ch: "r1 = 0" "g1 = 0" "b1 = 0" "r2 = 255" "g2 = 255" "b2 = 255" by simp_all
    note e' = e[unfolded ch t]
    have "\<lfloor>xr\<rfloor> = 127" "\<lfloor>xg\<rfloor> = 127" "\<lfloor>xb\<rfloor> = 127"
      by (rule fl[OF e'(1)], rule fl[OF e'(2)], rule fl[OF e'(3)])
    then show ?thesis unfolding r by (simp only: hx)
  qed
  show ?thesis by (intro conjI v c ends w mid)
qed
section \<open>Claims about contrast and the audit\<close>

text \<open>
  Claim C5.  When \<open>a11y_check\<close> returns a report for a palette: the foregrounds are the
  swatches whose role is text, primary, secondary or accent, or the first two swatches when
  there is none; the backgrounds are the swatches whose role is background, surface or
  muted, or the swatches from index 2 on when there is none; the report holds exactly one
  check for each pair of a foreground and a background, in the order of the nested loops,
  and each check names the two swatches and carries their contrast ratio, the grade of
  that ratio and the three flags \<open>ratio \<ge> 4.5\<close>, \<open>ratio \<ge> 3.0\<close>, \<open>ratio \<ge> 7.0\<close>.
\<close>

theorem a11y_check_cross_product:
  assumes "a11y_check pw palette = Inr rep"
  shows "\<exists>fgs bgs.
      fgs = (if filter (\<lambda>s. sw_role s \<in> {''text'', ''primary'', ''secondary'', ''accent''})
                  (p_colors palette) = []
             then take 2 (p_colors palette)
             else filter (\<lambda>s. sw_role s \<in> {''text'', ''primary'', ''secondary'', ''accent''})
                  (p_colors palette))
    \<and> bgs = (if filter (\<lambda>s. sw_role s \<in> {''background'', ''surface'', ''muted''})
                  (p_colors palette) = []
             then drop 2 (p_colors palette)
             else filter (\<lambda>s. sw_role s \<in> {''background'', ''surface'', ''muted''})
                  (p_colors palette))
    \<and> length (checks rep) = length fgs * length bgs
    \<and> list_all2 (\<lambda>(fg, bg) ck.
          fg_name ck = sw_name fg \<and> fg_hex ck = sw_hex fg
        \<and> bg_name ck = sw_name bg \<and> bg_hex ck = sw_hex bg
        \<and> wcag_contrast_ratio pw (sw_hex fg) (sw_hex bg) = Inr (ck_ratio ck)
        \<and> ck_grade ck = wcag_grade (ck_ratio ck)
        \<and> aa_normal ck = (45 / 10 \<le> ck_ratio ck) \<and> aa_large ck = (3 \<le> ck_ratio ck)
        \<and> aaa_normal ck = (7 \<le> ck_ratio ck))
       (concat (map (\<lambda>fg. map (Pair fg) bgs) fgs)) (checks rep)"
proof -
  let ?P = "\<lambda>(fg, bg) ck.
          fg_name ck = sw_name fg \<and> fg_hex ck = sw_hex fg
        \<and> bg_name ck = sw_name bg \<and> bg_hex ck = sw_hex bg
        \<and> wcag_contrast_ratio pw (sw_hex fg) (sw_hex bg) = Inr (ck_ratio ck)
        \<and> ck_grade ck = wcag_grade (ck_ratio ck)
        \<and> aa_normal ck = (45 / 10 \<le> ck_ratio ck) \<and> aa_large ck = (3 \<le> ck_ratio ck)
        \<and> aaa_normal ck = (7 \<le> ck_ratio ck)"
  from map_err_sound[OF a11y_check_Inr[OF assms]]
  have "list_all2 (\<lambda>x y. make_check pw x = Inr y)
          (List.product (foregrounds palette) (backgrounds palette)) (checks rep)" .
  then have all2: "list_all2 ?P (List.product (foregrounds palette) (backgrounds palette)) (checks rep)"
    by (rule list_all2_mono) (auto dest: make_check_Inr)
  from list_all2_lengthD[OF all2]
  have len: "length (checks rep) = length (foregrounds palette) * length (backgrounds palette)"
    by (simp add: length_product)
  have prod: "List.product (foregrounds palette) (backgrounds palette)
      = concat (map (\<lambda>fg. map (Pair fg) (backgrounds palette)) (foregrounds palette))"
    by (simp add: product_concat_map)
  show ?thesis
    apply (rule exI[of _ "foregrounds palette"], rule exI[of _ "backgrounds palette"])
    using all2 len by (intro conjI foregrounds_eq backgrounds_eq) (simp_all only: prod)
qed

theorem a11y_check_cross_product_witness:
  "\<exists>rep. a11y_check (\<lambda>x y. x * x)
        \<lparr>p_id = ''id-5'', p_name = ''Duo'', p_base_color = ''#000000'', p_harmony = ''complementary'',
         p_colors = [\<lparr>sw_hex = ''#000000'', sw_name = ''Duo-dark'', sw_role = ''text'',
                       sw_hue = 0, sw_lightness = 0, sw_saturation = 0\<rparr>,
                     \<lparr>sw_hex = ''#ffffff'', sw_name = ''Duo-light'', sw_role = ''background'',
                       sw_hue = 0, sw_lightness = 1, sw_saturation = 0\<rparr>],
         p_tags = [''complementary''], p_created_at = ''2024-01-01T00:00:00'', p_description = []\<rparr>
      = Inr rep \<and> length (checks rep) = 1"
proof -
  let ?p = "\<lparr>p_id = ''id-5'', p_name = ''Duo'', p_base_color = ''#000000'', p_harmony = ''complementary'',
         p_colors = [\<lparr>sw_hex = ''#000000'', sw_name = ''Duo-dark'', sw_role = ''text'',
                       sw_hue = 0, sw_lightness = 0, sw_saturation = 0\<rparr>,
                     \<lparr>sw_hex = ''#ffffff'', sw_name = ''Duo-light'', sw_role = ''background'',
                       sw_hue = 0, sw_lightness = 1, sw_saturation = 0\<rparr>],
         p_tags = [''complementary''], p_created_at = ''2024-01-01T00:00:00'', p_description = []\<rparr>"
  have pw: "pow_nonneg (\<lambda>x y. x * x)" by (simp add: pow_nonneg_def)
  have "\<forall>sw\<in>set (p_colors ?p). \<exists>t. hex_to_rgb (sw_hex sw) = Inr t"
    by (simp add: parse_black parse_white)
  from a11y_check_total[OF this pw] obtain rep where rep: "a11y_check (\<lambda>x y. x * x) ?p = Inr rep"
    by blast
  from a11y_check_cross_product[OF rep] have "length (checks rep) = 1" by simp
  with rep show ?thesis by (intro exI[of _ rep] conjI)
qed

text \<open>
  Claim C10.  \<open>a11y_check\<close> does not fail.  A palette of at most two swatches none of which
  has a background, surface or muted role has no pair to check, and the report then has
  total 0, pass_aa 0, fail_aa 0 and pass_rate 0.0, whatever the swatches are: the division
  for the pass rate is by \<open>max(1, len(checks))\<close>.  For every palette whose swatches were
  accepted by the \<open>ColorSwatch\<close> constructor (their hex strings parse), a report is
  returned, and it has that all-zero summary whenever it has no checks.
\<close>

theorem a11y_check_never_fails:
  shows "(length (p_colors palette) \<le> 2
        \<and> filter (\<lambda>s. sw_role s \<in> {''background'', ''surface'', ''muted''}) (p_colors palette) = []
      \<longrightarrow> a11y_check pw palette =
            Inr \<lparr>palette_id = p_id palette, palette_name = p_name palette, checks = [],
                 summary = \<lparr>total = 0, pass_aa = 0, fail_aa = 0, pass_rate = 0\<rparr>\<rparr>)
    \<and> ((\<forall>sw\<in>set (p_colors palette). \<exists>t. hex_to_rgb (sw_hex sw) = Inr t) \<and> pow_nonneg pw
      \<longrightarrow> (\<exists>rep. a11y_check pw palette = Inr rep
            \<and> (checks rep = [] \<longrightarrow>
                  summary rep = \<lparr>total = 0, pass_aa = 0, fail_aa = 0, pass_rate = 0\<rparr>)))"
proof (intro conjI impI)
  assume "length (p_colors palette) \<le> 2
        \<and> filter (\<lambda>s. sw_role s \<in> {''background'', ''surface'', ''muted''}) (p_colors palette) = []"
  then have "List.product (foregrounds palette) (backgrounds palette) = []"
    by (intro short_palette_no_pairs) simp_all
  then show "a11y_check pw palette =
            Inr \<lparr>palette_id = p_id palette, palette_name = p_name palette, checks = [],
                 summary = \<lparr>total = 0, pass_aa = 0, fail_aa = 0, pass_rate = 0\<rparr>\<rparr>"
    by (rule a11y_check_empty)
next
  assume h: "(\<forall>sw\<in>set (p_colors palette). \<exists>t. hex_to_rgb (sw_hex sw) = Inr t) \<and> pow_nonneg pw"
  then obtain rep where rep: "a11y_check pw palette = Inr rep"
    and cs: "map_err (make_check pw) (List.product (foregrounds palette) (backgrounds palette))
              = Inr (checks rep)"
    using a11y_check_total[of palette pw] by blast
  have "summary rep = \<lparr>total = 0, pass_aa = 0, fail_aa = 0, pass_rate = 0\<rparr>" if "checks rep = []"
  proof -
    from cs that have "List.product (foregrounds palette) (backgrounds palette) = []"
      by (simp add: map_err_Inr_iff)
    from a11y_check_empty[OF this, of pw] rep show ?thesis by auto
  qed
  with rep show "\<exists>rep. a11y_check pw palette = Inr rep
            \<and> (checks rep = [] \<longrightarrow>
                  summary rep = \<lparr>total = 0, pass_aa = 0, fail_aa = 0, pass_rate = 0\<rparr>)"
    by blast
qed

theorem a11y_check_never_fails_witness:
  "a11y_check (\<lambda>x y. x * x)
        \<lparr>p_id = ''id-6'', p_name = ''Solo'', p_base_color = ''#000000'', p_harmony = ''complementary'',
         p_colors = [\<lparr>sw_hex = ''#000000'', sw_name = ''Solo-1'', sw_role = ''primary'',
                       sw_hue = 0, sw_lightness = 0, sw_saturation = 0\<rparr>],
         p_tags = [], p_created_at = ''2024-01-01T00:00:00'', p_description = []\<rparr>
      = Inr \<lparr>palette_id = ''id-6'', palette_name = ''Solo'', checks = [],
             summary = \<lparr>total = 0, pass_aa = 0, fail_aa = 0, pass_rate = 0\<rparr>\<rparr>
   \<and> pow_nonneg (\<lambda>x y. x * x)
   \<and> (\<exists>rep. a11y_check (\<lambda>x y. x * x)
        \<lparr>p_id = ''id-5'', p_name = ''Duo'', p_base_color = ''#000000'', p_harmony = ''complementary'',
         p_colors = [\<lparr>sw_hex = ''#000000'', sw_name = ''Duo-dark'', sw_role = ''text'',
                       sw_hue = 0, sw_lightness = 0, sw_saturation = 0\<rparr>,
                     \<lparr>sw_hex = ''#ffffff'', sw_name = ''Duo-light'', sw_role = ''background'',
                       sw_hue = 0, sw_lightness = 1, sw_saturation = 0\<rparr>],
         p_tags = [''complementary''], p_created_at = ''2024-01-01T00:00:00'', p_description = []\<rparr>
      = Inr rep)"
proof -
  let ?solo = "\<lparr>p_id = ''id-6'', p_name = ''Solo'', p_base_color = ''#000000'', p_harmony = ''complementary'',
         p_colors = [\<lparr>sw_hex = ''#000000'', sw_name = ''Solo-1'', sw_role = ''primary'',
                       sw_hue = 0, sw_lightness = 0, sw_saturation = 0\<rparr>],
         p_tags = [], p_created_at = ''2024-01-01T00:00:00'', p_description = []\<rparr>"
  let ?duo = "\<lparr>p_id = ''id-5'', p_name = ''Duo'', p_base_color = ''#000000'', p_harmony = ''complementary'',
         p_colors = [\<lparr>sw_hex = ''#000000'', sw_name = ''Duo-dark'', sw_role = ''text'',
                       sw_hue = 0, sw_lightness = 0, sw_saturation = 0\<rparr>,
                     \<lparr>sw_hex = ''#ffffff'', sw_name = ''Duo-light'', sw_role = ''background'',
                       sw_hue = 0, sw_lightness = 1, sw_saturation = 0\<rparr>],
         p_tags = [''complementary''], p_created_at = ''2024-01-01T00:00:00'', p_description = []\<rparr>"
  have pw: "pow_nonneg (\<lambda>x y. x * x)" by (simp add: pow_nonneg_def)
  have 1: "a11y_check (\<lambda>x y. x * x) ?solo
      = Inr \<lparr>palette_id = ''id-6'', palette_name = ''Solo'', checks = [],
             summary = \<lparr>total = 0, pass_aa = 0, fail_aa = 0, pass_rate = 0\<rparr>\<rparr>"
    using a11y_check_never_fails[of ?solo "\<lambda>x y. x * x"] by simp
  have "\<forall>sw\<in>set (p_colors ?duo). \<exists>t. hex_to_rgb (sw_hex sw) = Inr t"
    by (simp add: parse_black parse_white)
  with pw have 2: "\<exists>rep. a11y_check (\<lambda>x y. x * x) ?duo = Inr rep"
    using a11y_check_never_fails[of ?duo "\<lambda>x y. x * x"] by blast
  from 1 pw 2 show ?thesis by (intro conjI)
qed

text \<open>
  Claim C6.  For all valid colours \<open>a\<close> and \<open>b\<close>, with the power of the C library taken as
  faithful (\<open>pow_faithful\<close>): the contrast ratio is the same for \<open>(a, b)\<close> and \<open>(b, a)\<close>; the
  ratio of a colour with itself is exactly 1.0; the ratio of \<open>#000000\<close> and \<open>#ffffff\<close> is
  exactly 21.0; and every ratio lies between 1.0 and 21.0.
\<close>

theorem wcag_contrast_ratio_properties:
  assumes "valid_hex a" and "valid_hex b" and "pow_faithful pw"
  shows "wcag_contrast_ratio pw a b = wcag_contrast_ratio pw b a
    \<and> wcag_contrast_ratio pw a a = Inr 1
    \<and> wcag_contrast_ratio pw ''#000000'' ''#ffffff'' = Inr 21
    \<and> (\<exists>q. wcag_contrast_ratio pw a b = Inr q \<and> 1 \<le> q \<and> q \<le> 21)"
proof -
  from assms(3) have nn: "pow_nonneg pw" by (simp add: pow_faithful_def)
  from valid_hex_parse[OF assms(1)] obtain r g bl where "hex_to_rgb a = Inr (r, g, bl)" by blast
  from wcag_contrast_ratio_self[OF this nn] have self: "wcag_contrast_ratio pw a a = Inr 1" .
  show ?thesis
    by (intro conjI wcag_contrast_ratio_commute self wcag_black_white[OF assms(3)]
        wcag_contrast_ratio_range[OF assms])
qed

theorem wcag_contrast_ratio_properties_witness:
  "valid_hex ''#3b82f6'' \<and> valid_hex ''#ffffff'' \<and> pow_faithful (\<lambda>x y. x * x)
   \<and> wcag_contrast_ratio (\<lambda>x y. x * x) ''#3b82f6'' ''#ffffff''
       = wcag_contrast_ratio (\<lambda>x y. x * x) ''#ffffff'' ''#3b82f6''
   \<and> wcag_contrast_ratio (\<lambda>x y. x * x) ''#3b82f6'' ''#3b82f6'' = Inr 1
   \<and> wcag_contrast_ratio (\<lambda>x y. x * x) ''#000000'' ''#ffffff'' = Inr 21"
proof -
  have v: "valid_hex ''#3b82f6''" "valid_hex ''#ffffff''"
    by (simp_all add: valid_hex_def lstrip_hash_def is_hex_def hex_val_def)
  have pw: "pow_faithful (\<lambda>x y. x * x)"
    by (auto simp: pow_faithful_def pow_nonneg_def mult_le_one)
  from wcag_contrast_ratio_properties[OF v pw] v pw show ?thesis by (intro conjI) simp_all
qed


end
